theory Spec2Isabelle
  imports Complex_Main
begin

text \<open>
  The tool \<^verbatim>\<open>obrms\<close> (\<^verbatim>\<open>src/tools/obrms.cpp\<close>) reports the heavy-atom RMSD between a
  reference molecule and test molecules whose atoms may be ordered differently. Its own
  code is the normalisation \<^verbatim>\<open>processMol\<close>, the class \<^verbatim>\<open>Matcher\<close> with
  \<^verbatim>\<open>computeRMSD\<close>, and the visitor \<^verbatim>\<open>MapRMSDFunctor\<close> whose \<^verbatim>\<open>operator()\<close> evaluates
  one atom mapping. The molecule classes, the isomorphism mapper and the numeric routines
  \<^verbatim>\<open>qtrfit\<close>, \<^verbatim>\<open>rotate_coords\<close> and \<^verbatim>\<open>calc_rms\<close> belong to the library the tool is
  linked with; each is either a parameter of the model or a definition marked as modelled
  from the spec.
\<close>

section \<open>Double-precision values\<close>

text \<open>
  The program computes with C++ \<^verbatim>\<open>double\<close>, the binary64 format of IEEE 754. A value is
  a finite number, one of the two infinities or a NaN. A finite double is a real number
  \<open>m \<cdot> 2\<^sup>e\<close> with \<open>\<bar>m\<bar> < 2\<^sup>5\<^sup>3\<close> and \<open>-1074 \<le> e \<le> 971\<close>. Every operation computes the
  exact real result and rounds it: to the nearest finite double, to the one with the even
  significand when two are equally near, and to an infinity when the rounded magnitude
  reaches \<open>2\<^sup>1\<^sup>0\<^sup>2\<^sup>4\<close>. Each \<^verbatim>\<open>+\<close>, \<^verbatim>\<open>-\<close>, \<^verbatim>\<open>*\<close>, \<^verbatim>\<open>/\<close> and \<^verbatim>\<open>sqrt\<close> of the program is one
  such operation: no two are fused and none is carried out in a wider format. The sign of
  zero is the one thing of the format that the model leaves out; the only division by
  zero in the program is \<open>0 / 0\<close>, and no comparison tells the two zeros apart.
\<close>

datatype double = Fin real | PInf | NInf | NaN

definition HUGE_VAL :: double where
  "HUGE_VAL = PInf"

text \<open>The reals that are finite doubles.\<close>

definition representable :: "real \<Rightarrow> bool" where
  "representable x =
     (\<exists>m e. \<bar>m\<bar> < 2 ^ 53 \<and> - 1074 \<le> e \<and> e \<le> 971 \<and> x = real_of_int m * 2 powr real_of_int e)"

text \<open>
  Rounding. The doubles near \<open>x \<noteq> 0\<close> are the integer multiples of \<open>2\<^sup>e\<close>, where \<open>e\<close> is
  the exponent of the last place of \<open>x\<close>: 52 below the exponent of \<open>x\<close> for a normal
  number, \<open>-1074\<close> for a subnormal one.
\<close>

definition ulp_exponent :: "real \<Rightarrow> int" where
  "ulp_exponent x = max (\<lfloor>log 2 \<bar>x\<bar>\<rfloor> - 52) (- 1074)"

definition round_ties_even :: "real \<Rightarrow> int" where
  "round_ties_even q =
     (let f = \<lfloor>q\<rfloor>; r = q - real_of_int f in
      if r < 1 / 2 then f else if 1 / 2 < r then f + 1 else if even f then f else f + 1)"

definition round_double :: "real \<Rightarrow> double" where
  "round_double x =
     (if x = 0 then Fin 0
      else let u = 2 powr real_of_int (ulp_exponent x);
               y = real_of_int (round_ties_even (x / u)) * u
           in if 2 ^ 1024 \<le> \<bar>y\<bar> then (if 0 < x then PInf else NInf) else Fin y)"

fun dneg :: "double \<Rightarrow> double" where
  "dneg (Fin a) = Fin (- a)"
| "dneg PInf = NInf"
| "dneg NInf = PInf"
| "dneg NaN = NaN"

fun dadd :: "double \<Rightarrow> double \<Rightarrow> double" where
  "dadd (Fin a) (Fin b) = round_double (a + b)"
| "dadd NaN _ = NaN"
| "dadd _ NaN = NaN"
| "dadd PInf NInf = NaN"
| "dadd NInf PInf = NaN"
| "dadd PInf _ = PInf"
| "dadd _ PInf = PInf"
| "dadd NInf _ = NInf"
| "dadd _ NInf = NInf"

definition dsub :: "double \<Rightarrow> double \<Rightarrow> double" where
  "dsub a b = dadd a (dneg b)"

text \<open>The sign of a non-NaN value: \<open>-1\<close>, \<open>0\<close> or \<open>1\<close>.\<close>

fun dsgn :: "double \<Rightarrow> int" where
  "dsgn (Fin a) = (if a < 0 then -1 else if a = 0 then 0 else 1)"
| "dsgn PInf = 1"
| "dsgn NInf = -1"
| "dsgn NaN = 0"

definition inf_of_sign :: "int \<Rightarrow> double" where
  "inf_of_sign s = (if s = 0 then NaN else if 0 < s then PInf else NInf)"

fun dmul :: "double \<Rightarrow> double \<Rightarrow> double" where
  "dmul (Fin a) (Fin b) = round_double (a * b)"
| "dmul NaN _ = NaN"
| "dmul _ NaN = NaN"
| "dmul a b = inf_of_sign (dsgn a * dsgn b)"

text \<open>
  Division: a finite value over zero is an infinity of the dividend's sign, and
  \<open>0 / 0\<close> and \<open>\<infinity> / \<infinity>\<close> are NaN. No division traps.
\<close>

fun ddiv :: "double \<Rightarrow> double \<Rightarrow> double" where
  "ddiv (Fin a) (Fin b) = (if b = 0 then inf_of_sign (dsgn (Fin a)) else round_double (a / b))"
| "ddiv NaN _ = NaN"
| "ddiv _ NaN = NaN"
| "ddiv (Fin a) _ = Fin 0"
| "ddiv a (Fin b) = inf_of_sign (dsgn a * (if b < 0 then -1 else 1))"
| "ddiv _ _ = NaN"

fun dsqrt :: "double \<Rightarrow> double" where
  "dsqrt (Fin a) = (if a < 0 then NaN else round_double (sqrt a))"
| "dsqrt PInf = PInf"
| "dsqrt NInf = NaN"
| "dsqrt NaN = NaN"

text \<open>The comparison \<^verbatim>\<open>a < b\<close> of two doubles.\<close>

fun dless :: "double \<Rightarrow> double \<Rightarrow> bool" where
  "dless (Fin a) (Fin b) = (a < b)"
| "dless NaN _ = False"
| "dless _ NaN = False"
| "dless _ NInf = False"
| "dless PInf _ = False"
| "dless _ _ = True"

text \<open>
  The conversion of an \<^verbatim>\<open>unsigned\<close> to \<^verbatim>\<open>double\<close>, as in \<^verbatim>\<open>rave[c] /= N\<close>. It is exact:
  an \<^verbatim>\<open>unsigned\<close> is below \<open>2\<^sup>3\<^sup>2\<close>.
\<close>

definition of_unsigned :: "nat \<Rightarrow> double" where
  "of_unsigned n = Fin (real n)"

definition is_finite :: "double \<Rightarrow> bool" where
  "is_finite d = (case d of Fin _ \<Rightarrow> True | _ \<Rightarrow> False)"

section \<open>Molecules\<close>

text \<open>
  The classes \<^verbatim>\<open>OBAtom\<close>, \<^verbatim>\<open>OBBond\<close> and \<^verbatim>\<open>OBMol\<close> belong to the library; the
  tool uses them through their methods only. An atom is its element, its position and
  the two perception flags that \<^verbatim>\<open>processMol\<close> writes; \<open>atom_id\<close> stands for the
  identity of the object, which a bond's two atom pointers refer to and which survives
  the deletion of other atoms. The index of an atom (\<^verbatim>\<open>GetIdx\<close>, from 1) is its place in
  the molecule's atom vector. A position read from a structure file is a finite double;
  the theorems below hold of every real position, and the examples use doubles only.
\<close>

record OBAtom =
  atom_id :: nat
  atomic_num :: nat
  vec_x :: real
  vec_y :: real
  vec_z :: real
  atom_aromatic :: bool
  atom_in_ring :: bool

record OBBond =
  bond_begin :: nat
  bond_end :: nat
  bond_order :: nat
  bond_aromatic :: bool
  bond_in_ring :: bool

record OBMol =
  atoms :: "OBAtom list"
  bonds :: "OBBond list"
  hybridization_perceived :: bool
  ring_atoms_and_bonds_perceived :: bool
  aromatic_perceived :: bool

definition NumAtoms :: "OBMol \<Rightarrow> nat" where
  "NumAtoms mol = length (atoms mol)"

text \<open>
  \<^verbatim>\<open>OBMol::GetAtom(idx)\<close>: the atom of index \<open>idx\<close>, or a null pointer when there is
  none. Atoms are indexed from 1, as the comment at the call in \<^verbatim>\<open>operator()\<close> says.
\<close>

definition GetAtom :: "OBMol \<Rightarrow> nat \<Rightarrow> OBAtom option" where
  "GetAtom mol idx =
     (if 1 \<le> idx \<and> idx \<le> NumAtoms mol then Some (atoms mol ! (idx - 1)) else None)"

text \<open>\<^verbatim>\<open>GetVector()[c]\<close> for \<open>c = 0, 1, 2\<close>, in this order.\<close>

definition GetVector :: "OBAtom \<Rightarrow> double list" where
  "GetVector a = [Fin (vec_x a), Fin (vec_y a), Fin (vec_z a)]"

definition IsHydrogen :: "OBAtom \<Rightarrow> bool" where
  "IsHydrogen a = (atomic_num a = 1)"

section \<open>Normalisation: \<^verbatim>\<open>processMol\<close>\<close>

text \<open>
  Modelled from the spec: \<^verbatim>\<open>OBMol::DeleteHydrogens\<close> is a method of the library. The
  spec has it remove all atoms tagged as hydrogen, together with their incident bonds.
\<close>

definition DeleteHydrogens :: "OBMol \<Rightarrow> OBMol" where
  "DeleteHydrogens mol =
     (let hs = map atom_id (filter IsHydrogen (atoms mol)) in
      mol\<lparr>atoms := filter (\<lambda>a. \<not> IsHydrogen a) (atoms mol),
          bonds := filter (\<lambda>b. bond_begin b \<notin> set hs \<and> bond_end b \<notin> set hs) (bonds mol)\<rparr>)"

text \<open>
  Modelled from the spec: the setters that \<^verbatim>\<open>processMol\<close> calls on each atom and bond
  are methods of the library. The spec has normalisation clear the aromatic flag, mark the
  atom or bond as in a ring and force the bond order to the value given.
\<close>

definition atom_UnsetAromatic :: "OBAtom \<Rightarrow> OBAtom" where
  "atom_UnsetAromatic a = a\<lparr>atom_aromatic := False\<rparr>"

definition atom_SetInRing :: "OBAtom \<Rightarrow> OBAtom" where
  "atom_SetInRing a = a\<lparr>atom_in_ring := True\<rparr>"

definition bond_UnsetAromatic :: "OBBond \<Rightarrow> OBBond" where
  "bond_UnsetAromatic b = b\<lparr>bond_aromatic := False\<rparr>"

definition SetBondOrder :: "nat \<Rightarrow> OBBond \<Rightarrow> OBBond" where
  "SetBondOrder n b = b\<lparr>bond_order := n\<rparr>"

definition bond_SetInRing :: "OBBond \<Rightarrow> OBBond" where
  "bond_SetInRing b = b\<lparr>bond_in_ring := True\<rparr>"

text \<open>
  \<^verbatim>\<open>processMol\<close>: delete the hydrogens, run the loop over the atoms and the loop over the
  bonds, then set the three perception flags of the molecule.
\<close>

definition processMol :: "OBMol \<Rightarrow> OBMol" where
  "processMol mol =
     (let m1 = DeleteHydrogens mol;
          m2 = m1\<lparr>atoms := map (\<lambda>a. atom_SetInRing (atom_UnsetAromatic a)) (atoms m1)\<rparr>;
          m3 = m2\<lparr>bonds := map (\<lambda>b. bond_SetInRing (SetBondOrder 1 (bond_UnsetAromatic b)))
                              (bonds m2)\<rparr>
      in m3\<lparr>hybridization_perceived := True,
             ring_atoms_and_bonds_perceived := True,
             aromatic_perceived := True\<rparr>)"

section \<open>The per-mapping evaluator: \<^verbatim>\<open>MapRMSDFunctor\<close>\<close>

text \<open>
  A \<^verbatim>\<open>Mapping\<close> is a vector of pairs: \<open>fst\<close> is an atom of the query (the reference),
  \<open>snd\<close> an atom of the queried molecule (the test), both counted from 0. Indices and
  sizes are \<^verbatim>\<open>unsigned\<close> in the program and natural numbers here: a molecule has far
  fewer than \<open>2\<^sup>3\<^sup>2 / 3\<close> atoms, so no index computed by the evaluator wraps around.
\<close>

type_synonym Mapping = "(nat \<times> nat) list"

text \<open>The one way the evaluator can fail: \<^verbatim>\<open>assert(ratom && tatom)\<close>.\<close>

datatype error = AssertionFailed

text \<open>
  The functor holds references to the two molecules, the best RMSD so far and the flag.
  The constructor sets \<^verbatim>\<open>bestRMSD(HUGE_VAL)\<close>.
\<close>

record MapRMSDFunctor =
  ref :: OBMol
  test :: OBMol
  bestRMSD :: double
  minimize :: bool

definition new_MapRMSDFunctor :: "OBMol \<Rightarrow> OBMol \<Rightarrow> bool \<Rightarrow> MapRMSDFunctor" where
  "new_MapRMSDFunctor r t mn = \<lparr>ref = r, test = t, bestRMSD = HUGE_VAL, minimize = mn\<rparr>"

definition getRMSD :: "MapRMSDFunctor \<Rightarrow> double" where
  "getRMSD f = bestRMSD f"

text \<open>
  The first loop of \<^verbatim>\<open>operator()\<close>: for \<open>i = 0, \<dots>, N - 1\<close> it fetches the atoms
  \<^verbatim>\<open>map[i].first + 1\<close> of the reference and \<^verbatim>\<open>map[i].second + 1\<close> of the test, asserts
  that both exist and writes their coordinates to the places \<open>3 i\<close>, \<open>3 i + 1\<close>, \<open>3 i + 2\<close>
  of the local arrays \<^verbatim>\<open>refcoord\<close> and \<^verbatim>\<open>testcoord\<close>. The arrays are filled from the
  left, so they are the concatenation of the coordinate triples.
\<close>

fun fill_coords :: "OBMol \<Rightarrow> OBMol \<Rightarrow> Mapping \<Rightarrow> error + (double list \<times> double list)" where
  "fill_coords r t [] = Inr ([], [])"
| "fill_coords r t (p # ps) =
     (case (GetAtom r (fst p + 1), GetAtom t (snd p + 1)) of
        (Some ratom, Some tatom) \<Rightarrow>
          (case fill_coords r t ps of
             Inl e \<Rightarrow> Inl e
           | Inr (rc, tc) \<Rightarrow> Inr (GetVector ratom @ rc, GetVector tatom @ tc))
      | _ \<Rightarrow> Inl AssertionFailed)"

text \<open>
  The centring block. \<open>column_sum coord N c\<close> is \<^verbatim>\<open>rave[c]\<close> after the summing loop,
  \<open>centroid\<close> is the array after \<^verbatim>\<open>rave[c] /= N\<close> (no test on \<open>N\<close> precedes the
  division), and \<open>subtract_centroid\<close> is the array after the loop
  \<^verbatim>\<open>refcoord[3 * i + c] -= rave[c]\<close>.
\<close>

definition column_sum :: "double list \<Rightarrow> nat \<Rightarrow> nat \<Rightarrow> double" where
  "column_sum coord N c = fold (\<lambda>i s. dadd s (coord ! (3 * i + c))) [0..<N] (Fin 0)"

definition centroid :: "double list \<Rightarrow> nat \<Rightarrow> double list" where
  "centroid coord N = map (\<lambda>c. ddiv (column_sum coord N c) (of_unsigned N)) [0, 1, 2]"

definition subtract_centroid :: "double list \<Rightarrow> double list \<Rightarrow> nat \<Rightarrow> double list" where
  "subtract_centroid coord ave N = map (\<lambda>k. dsub (coord ! k) (ave ! (k mod 3))) [0..<3 * N]"

text \<open>
  The matrix \<^verbatim>\<open>double rmatrix[3][3]\<close> is a function of the row and the column, read at
  indices below 3 only. \<^verbatim>\<open>qtrfit\<close> is a routine of the library; the evaluator takes
  it as a parameter: a function from the two centred arrays and \<open>N\<close> to the matrix it
  stores in \<^verbatim>\<open>rmatrix\<close>. It reads the two arrays and writes the matrix only.
\<close>

type_synonym matrix3 = "nat \<Rightarrow> nat \<Rightarrow> double"

type_synonym qtrfit_fn = "double list \<Rightarrow> double list \<Rightarrow> nat \<Rightarrow> matrix3"

text \<open>
  Modelled from the spec: \<^verbatim>\<open>rotate_coords\<close> is a routine of the library. The spec has
  it apply the rotation to the test point array: point \<open>i\<close> becomes the product of the
  matrix with point \<open>i\<close>.
\<close>

definition rotate_coords :: "double list \<Rightarrow> matrix3 \<Rightarrow> nat \<Rightarrow> double list" where
  "rotate_coords c m size_c =
     map (\<lambda>k. dadd (dadd (dmul (c ! (3 * (k div 3))) (m (k mod 3) 0))
                          (dmul (c ! (3 * (k div 3) + 1)) (m (k mod 3) 1)))
                    (dmul (c ! (3 * (k div 3) + 2)) (m (k mod 3) 2)))
         [0..<3 * size_c]"

text \<open>
  Modelled from the spec: \<^verbatim>\<open>calc_rms\<close> is a routine of the library. The spec has it
  return the square root of the mean, over the points, of the squared Euclidean distance
  between corresponding points, with the mean guarded by \<open>N \<ge> 1\<close> and the RMSD of an
  empty set defined as 0.
\<close>

definition SQUARE :: "double \<Rightarrow> double" where
  "SQUARE a = dmul a a"

definition sq_dist :: "double list \<Rightarrow> double list \<Rightarrow> nat \<Rightarrow> double" where
  "sq_dist r f i =
     dadd (dadd (SQUARE (dsub (r ! (3 * i)) (f ! (3 * i))))
                (SQUARE (dsub (r ! (3 * i + 1)) (f ! (3 * i + 1)))))
          (SQUARE (dsub (r ! (3 * i + 2)) (f ! (3 * i + 2))))"

definition calc_rms :: "double list \<Rightarrow> double list \<Rightarrow> nat \<Rightarrow> double" where
  "calc_rms r f N =
     (if N = 0 then Fin 0
      else dsqrt (ddiv (fold (\<lambda>i d2. dadd d2 (sq_dist r f i)) [0..<N] (Fin 0))
                       (of_unsigned N)))"

text \<open>
  The block under \<^verbatim>\<open>if (minimize)\<close>: both arrays are centred, \<^verbatim>\<open>qtrfit\<close> is called on
  the centred arrays and the test array is rotated. It returns the two local arrays as
  they stand when \<^verbatim>\<open>calc_rms\<close> is called.
\<close>

definition fit_coords ::
  "qtrfit_fn \<Rightarrow> double list \<Rightarrow> double list \<Rightarrow> nat \<Rightarrow> double list \<times> double list" where
  "fit_coords qtrfit refcoord testcoord N =
     (let rave = centroid refcoord N;
          tave = centroid testcoord N;
          rc = subtract_centroid refcoord rave N;
          tc = subtract_centroid testcoord tave N;
          rmatrix = qtrfit rc tc N
      in (rc, rotate_coords tc rmatrix N))"

text \<open>The value of the local \<^verbatim>\<open>rmsd\<close> of \<^verbatim>\<open>operator()\<close> for one mapping.\<close>

definition mapping_rmsd ::
  "qtrfit_fn \<Rightarrow> OBMol \<Rightarrow> OBMol \<Rightarrow> bool \<Rightarrow> Mapping \<Rightarrow> error + double" where
  "mapping_rmsd qtrfit r t mn mp =
     (let N = length mp in
      case fill_coords r t mp of
        Inl e \<Rightarrow> Inl e
      | Inr (refcoord, testcoord) \<Rightarrow>
          (let (rc, tc) = (if mn then fit_coords qtrfit refcoord testcoord N
                           else (refcoord, testcoord))
           in Inr (calc_rms rc tc N)))"

text \<open>
  \<^verbatim>\<open>operator()\<close>: the answer to the mapper (\<open>True\<close> asks it to stop) and the functor
  after the call.
\<close>

definition MapRMSDFunctor_call ::
  "qtrfit_fn \<Rightarrow> MapRMSDFunctor \<Rightarrow> Mapping \<Rightarrow> error + (bool \<times> MapRMSDFunctor)" where
  "MapRMSDFunctor_call qtrfit f mp =
     (case mapping_rmsd qtrfit (ref f) (test f) (minimize f) mp of
        Inl e \<Rightarrow> Inl e
      | Inr rmsd \<Rightarrow>
          Inr (False, if dless rmsd (bestRMSD f) then f\<lparr>bestRMSD := rmsd\<rparr> else f))"

section \<open>The matcher\<close>

text \<open>
  Modelled from the spec: \<^verbatim>\<open>OBIsomorphismMapper::MapGeneric\<close> is a method of the
  library. The spec has the enumerator call the visitor once per mapping found and stop
  early when the visitor answers with the stop signal. The third argument lists the
  mappings of the search in the order in which it finds them.
\<close>

fun MapGeneric ::
  "('s \<Rightarrow> Mapping \<Rightarrow> error + (bool \<times> 's)) \<Rightarrow> 's \<Rightarrow> Mapping list \<Rightarrow> error + 's" where
  "MapGeneric visit s [] = Inr s"
| "MapGeneric visit s (mp # mps) =
     (case visit s mp of
        Inl e \<Rightarrow> Inl e
      | Inr (stop, s') \<Rightarrow> if stop then Inr s' else MapGeneric visit s' mps)"

text \<open>
  The matcher keeps the reference molecule and the mapper compiled from it. The mapper
  is a parameter: a function from the test molecule to the mappings its search finds.
\<close>

record Matcher =
  matcher_ref :: OBMol
  mapper :: "OBMol \<Rightarrow> Mapping list"

definition new_Matcher :: "(OBMol \<Rightarrow> OBMol \<Rightarrow> Mapping list) \<Rightarrow> OBMol \<Rightarrow> Matcher" where
  "new_Matcher search mol = \<lparr>matcher_ref = mol, mapper = search mol\<rparr>"

text \<open>
  \<^verbatim>\<open>computeRMSD\<close>: build the functor, let the mapper drive it, return \<^verbatim>\<open>getRMSD()\<close>.
  \<open>run_functor\<close> is the functor as it stands after \<^verbatim>\<open>MapGeneric\<close>.
\<close>

definition run_functor :: "qtrfit_fn \<Rightarrow> Matcher \<Rightarrow> OBMol \<Rightarrow> bool \<Rightarrow> error + MapRMSDFunctor" where
  "run_functor qtrfit M t mn =
     MapGeneric (MapRMSDFunctor_call qtrfit) (new_MapRMSDFunctor (matcher_ref M) t mn)
       (mapper M t)"

definition computeRMSD :: "qtrfit_fn \<Rightarrow> Matcher \<Rightarrow> OBMol \<Rightarrow> bool \<Rightarrow> error + double" where
  "computeRMSD qtrfit M t mn =
     (case run_functor qtrfit M t mn of Inl e \<Rightarrow> Inl e | Inr f \<Rightarrow> Inr (getRMSD f))"

text \<open>
  The same call with its effect on the two objects the functor refers to: the value
  returned, the matcher and the test molecule as they stand after the call.
\<close>

definition computeRMSD_state ::
  "qtrfit_fn \<Rightarrow> Matcher \<Rightarrow> OBMol \<Rightarrow> bool \<Rightarrow> error + (double \<times> Matcher \<times> OBMol)" where
  "computeRMSD_state qtrfit M t mn =
     (case run_functor qtrfit M t mn of
        Inl e \<Rightarrow> Inl e
      | Inr f \<Rightarrow> Inr (getRMSD f, M\<lparr>matcher_ref := ref f\<rparr>, test f))"

section \<open>The correspondence search\<close>

text \<open>
  Modelled from the spec: the isomorphism search of the library
  (\<^verbatim>\<open>CompileMoleculeQuery\<close>, \<^verbatim>\<open>OBIsomorphismMapper::GetInstance\<close>). The spec has it
  produce every bijection between the atoms of the reference and of the test that
  preserves adjacency and element labels, and none when the graphs are not isomorphic.
  A mapping is such a bijection when the two molecules have the same number of atoms, the
  mapping lists the reference atoms in their order, sends them to distinct atoms of the
  test, keeps the atomic number, and two reference atoms are bonded exactly when their
  images are. The search tries every permutation of the test atoms and keeps the
  bijections.
\<close>

definition bonded :: "OBMol \<Rightarrow> nat \<Rightarrow> nat \<Rightarrow> bool" where
  "bonded mol i j =
     list_ex (\<lambda>b. (bond_begin b = atom_id (atoms mol ! i) \<and> bond_end b = atom_id (atoms mol ! j))
                \<or> (bond_begin b = atom_id (atoms mol ! j) \<and> bond_end b = atom_id (atoms mol ! i)))
             (bonds mol)"

definition is_isomorphism :: "OBMol \<Rightarrow> OBMol \<Rightarrow> Mapping \<Rightarrow> bool" where
  "is_isomorphism r t mp =
     (NumAtoms t = NumAtoms r \<and>
      map fst mp = [0..<NumAtoms r] \<and>
      distinct (map snd mp) \<and>
      list_all (\<lambda>j. j < NumAtoms t) (map snd mp) \<and>
      list_all (\<lambda>p. atomic_num (atoms r ! fst p) = atomic_num (atoms t ! snd p)) mp \<and>
      list_all (\<lambda>p. list_all (\<lambda>q. bonded r (fst p) (fst q) = bonded t (snd p) (snd q)) mp) mp)"

fun interleave :: "'a \<Rightarrow> 'a list \<Rightarrow> 'a list list" where
  "interleave x [] = [[x]]"
| "interleave x (y # ys) = (x # y # ys) # map ((#) y) (interleave x ys)"

fun permutations_of :: "'a list \<Rightarrow> 'a list list" where
  "permutations_of [] = [[]]"
| "permutations_of (x # xs) = concat (map (interleave x) (permutations_of xs))"

definition isomorphism_search :: "OBMol \<Rightarrow> OBMol \<Rightarrow> Mapping list" where
  "isomorphism_search r t =
     filter (is_isomorphism r t)
       (map (zip [0..<NumAtoms r]) (permutations_of [0..<NumAtoms t]))"

section \<open>Example inputs\<close>

text \<open>
  Formaldehyde as a reader may deliver it: a carbon, an oxygen and two hydrogens, the
  double bond flagged aromatic, nothing perceived.
\<close>

definition formaldehyde :: OBMol where
  "formaldehyde =
     \<lparr>atoms =
        [\<lparr>atom_id = 0, atomic_num = 6, vec_x = 0, vec_y = 0, vec_z = 0,
          atom_aromatic = True, atom_in_ring = False\<rparr>,
         \<lparr>atom_id = 1, atomic_num = 1, vec_x = 1, vec_y = 0, vec_z = 0,
          atom_aromatic = False, atom_in_ring = False\<rparr>,
         \<lparr>atom_id = 2, atomic_num = 8, vec_x = 0, vec_y = 1, vec_z = 0,
          atom_aromatic = False, atom_in_ring = False\<rparr>,
         \<lparr>atom_id = 3, atomic_num = 1, vec_x = 0, vec_y = 0, vec_z = 1,
          atom_aromatic = False, atom_in_ring = False\<rparr>],
      bonds =
        [\<lparr>bond_begin = 0, bond_end = 1, bond_order = 1, bond_aromatic = False,
          bond_in_ring = False\<rparr>,
         \<lparr>bond_begin = 2, bond_end = 0, bond_order = 2, bond_aromatic = True,
          bond_in_ring = False\<rparr>,
         \<lparr>bond_begin = 3, bond_end = 0, bond_order = 1, bond_aromatic = False,
          bond_in_ring = False\<rparr>],
      hybridization_perceived = False,
      ring_atoms_and_bonds_perceived = False,
      aromatic_perceived = False\<rparr>"

text \<open>A normalised carbon atom, a normalised bond, a normalised molecule.\<close>

definition carbon :: "nat \<Rightarrow> real \<Rightarrow> real \<Rightarrow> real \<Rightarrow> OBAtom" where
  "carbon i x y z =
     \<lparr>atom_id = i, atomic_num = 6, vec_x = x, vec_y = y, vec_z = z,
      atom_aromatic = False, atom_in_ring = True\<rparr>"

definition single_bond :: "nat \<Rightarrow> nat \<Rightarrow> OBBond" where
  "single_bond i j =
     \<lparr>bond_begin = i, bond_end = j, bond_order = 1, bond_aromatic = False,
      bond_in_ring = True\<rparr>"

definition molecule :: "OBAtom list \<Rightarrow> OBBond list \<Rightarrow> OBMol" where
  "molecule as bs =
     \<lparr>atoms = as, bonds = bs, hybridization_perceived = True,
      ring_atoms_and_bonds_perceived = True, aromatic_perceived = True\<rparr>"

text \<open>
  The scenario of the spec: two bonded atoms at \<open>(0,0,0)\<close> and \<open>(1,0,0)\<close>, and the copy
  translated by \<open>z = 1\<close>. A lone atom, and the molecule with no atom.
\<close>

definition pair_ref :: OBMol where
  "pair_ref = molecule [carbon 0 0 0 0, carbon 1 1 0 0] [single_bond 0 1]"

definition pair_test :: OBMol where
  "pair_test = molecule [carbon 0 0 0 1, carbon 1 1 0 1] [single_bond 0 1]"

definition lone_atom :: OBMol where
  "lone_atom = molecule [carbon 0 0 0 0] []"

definition no_atoms :: OBMol where
  "no_atoms = molecule [] []"

text \<open>A stand-in for \<^verbatim>\<open>qtrfit\<close> that always stores the identity matrix.\<close>

definition identity_fit :: qtrfit_fn where
  "identity_fit rc tc N = (\<lambda>r k. if r = k then Fin 1 else Fin 0)"

text \<open>
  Inputs at the edge of the format. A lone atom at \<open>x = 2\<^sup>7\<^sup>0\<^sup>0\<close>: a finite double whose
  square is above every finite double. Two bonded atoms at \<open>x = 2\<^sup>1\<^sup>0\<^sup>2\<^sup>3\<close>: finite doubles
  whose sum is above every finite double.
\<close>

definition far_atom :: OBMol where
  "far_atom = molecule [carbon 0 (2 ^ 700) 0 0] []"


section \<open>Predicates used in the statements and the proofs\<close>

text \<open>
  A mapping is in range when each of its pairs names an atom that exists in the reference
  and an atom that exists in the test: the condition under which every
  \<^verbatim>\<open>assert(ratom && tatom)\<close> of \<^verbatim>\<open>operator()\<close> holds.
\<close>

definition in_range :: "OBMol \<Rightarrow> OBMol \<Rightarrow> Mapping \<Rightarrow> bool" where
  "in_range r t mp = list_all (\<lambda>p. fst p < NumAtoms r \<and> snd p < NumAtoms t) mp"


text \<open>
  The values a sum of squares, a mean of them or its square root can take: a finite
  number that is not negative, the positive infinity, or a NaN.
\<close>

definition not_negative :: "double \<Rightarrow> bool" where
  "not_negative d = (case d of Fin a \<Rightarrow> 0 \<le> a | PInf \<Rightarrow> True | NInf \<Rightarrow> False | NaN \<Rightarrow> True)"

text \<open>
  Bounds used to rule out overflow: a molecule whose coordinates are at most \<open>2\<^sup>n\<close> in
  magnitude, a finite double of magnitude at most \<open>2\<^sup>n\<close>, and a finite double between 0
  and a bound.
\<close>

definition bounded_coordinates :: "nat \<Rightarrow> OBMol \<Rightarrow> bool" where
  "bounded_coordinates n mol =
     list_all (\<lambda>a. \<bar>vec_x a\<bar> \<le> 2 ^ n \<and> \<bar>vec_y a\<bar> \<le> 2 ^ n \<and> \<bar>vec_z a\<bar> \<le> 2 ^ n) (atoms mol)"

definition magnitude_le :: "nat \<Rightarrow> double \<Rightarrow> bool" where
  "magnitude_le n d = (case d of Fin x \<Rightarrow> \<bar>x\<bar> \<le> 2 ^ n | _ \<Rightarrow> False)"

definition between_zero :: "real \<Rightarrow> double \<Rightarrow> bool" where
  "between_zero b d = (case d of Fin x \<Rightarrow> 0 \<le> x \<and> x \<le> b | _ \<Rightarrow> False)"

section \<open>Normalisation: what \<^verbatim>\<open>processMol\<close> leaves\<close>

lemma processMol_atoms:
  "atoms (processMol mol) =
     map (\<lambda>a. atom_SetInRing (atom_UnsetAromatic a)) (filter (\<lambda>a. \<not> IsHydrogen a) (atoms mol))"
  by (simp add: processMol_def DeleteHydrogens_def Let_def)

lemma processMol_bonds:
  "bonds (processMol mol) =
     map (\<lambda>b. bond_SetInRing (SetBondOrder 1 (bond_UnsetAromatic b)))
       (filter (\<lambda>b. bond_begin b \<notin> atom_id ` {a \<in> set (atoms mol). IsHydrogen a} \<and>
                    bond_end b \<notin> atom_id ` {a \<in> set (atoms mol). IsHydrogen a}) (bonds mol))"
  by (simp add: processMol_def DeleteHydrogens_def Let_def)

lemma IsHydrogen_setters [simp]:
  "IsHydrogen (atom_SetInRing a) = IsHydrogen a"
  "IsHydrogen (atom_UnsetAromatic a) = IsHydrogen a"
  by (simp_all add: IsHydrogen_def atom_SetInRing_def atom_UnsetAromatic_def)

lemma processMol_flags:
  "hybridization_perceived (processMol m) \<and> ring_atoms_and_bonds_perceived (processMol m) \<and>
   aromatic_perceived (processMol m) \<and> OBMol.more (processMol m) = OBMol.more m"
  by (simp add: processMol_def DeleteHydrogens_def Let_def)

text \<open>
  C6. After \<^verbatim>\<open>processMol\<close> every atom left is a heavy atom, no atom or bond left is
  flagged aromatic, every atom and bond left is marked as in a ring and every bond left
  has order 1. The atoms left are the heavy atoms of the input, in their order and at
  their places; the bonds left are the bonds of the input with no hydrogen at either end.
  The function is total, and on a molecule with no atom and no bond it leaves no atom and
  no bond.
\<close>

theorem processMol_normalises:
  "(\<forall>a \<in> set (atoms (processMol mol)).
       \<not> IsHydrogen a \<and> \<not> atom_aromatic a \<and> atom_in_ring a) \<and>
   (\<forall>b \<in> set (bonds (processMol mol)).
       \<not> bond_aromatic b \<and> bond_in_ring b \<and> bond_order b = 1) \<and>
   map (\<lambda>a. (atom_id a, atomic_num a, vec_x a, vec_y a, vec_z a)) (atoms (processMol mol)) =
     map (\<lambda>a. (atom_id a, atomic_num a, vec_x a, vec_y a, vec_z a))
       (filter (\<lambda>a. \<not> IsHydrogen a) (atoms mol)) \<and>
   map (\<lambda>b. (bond_begin b, bond_end b)) (bonds (processMol mol)) =
     map (\<lambda>b. (bond_begin b, bond_end b))
       (filter (\<lambda>b. \<forall>a \<in> set (atoms mol).
                      IsHydrogen a \<longrightarrow> bond_begin b \<noteq> atom_id a \<and> bond_end b \<noteq> atom_id a)
          (bonds mol)) \<and>
   (atoms mol = [] \<and> bonds mol = [] \<longrightarrow>
      atoms (processMol mol) = [] \<and> bonds (processMol mol) = [])"
proof (intro conjI)
  show "\<forall>a \<in> set (atoms (processMol mol)). \<not> IsHydrogen a \<and> \<not> atom_aromatic a \<and> atom_in_ring a"
    by (auto simp: processMol_atoms) (simp_all add: atom_SetInRing_def atom_UnsetAromatic_def)
  show "\<forall>b \<in> set (bonds (processMol mol)). \<not> bond_aromatic b \<and> bond_in_ring b \<and> bond_order b = 1"
    by (auto simp: processMol_bonds bond_SetInRing_def SetBondOrder_def bond_UnsetAromatic_def)
  show "map (\<lambda>a. (atom_id a, atomic_num a, vec_x a, vec_y a, vec_z a)) (atoms (processMol mol)) =
     map (\<lambda>a. (atom_id a, atomic_num a, vec_x a, vec_y a, vec_z a))
       (filter (\<lambda>a. \<not> IsHydrogen a) (atoms mol))"
    by (simp add: processMol_atoms atom_SetInRing_def atom_UnsetAromatic_def o_def)
  have eq: "(\<lambda>b. bond_begin b \<notin> atom_id ` {a \<in> set (atoms mol). IsHydrogen a} \<and>
                 bond_end b \<notin> atom_id ` {a \<in> set (atoms mol). IsHydrogen a}) =
            (\<lambda>b. \<forall>a \<in> set (atoms mol).
                 IsHydrogen a \<longrightarrow> bond_begin b \<noteq> atom_id a \<and> bond_end b \<noteq> atom_id a)"
    by (rule ext) auto
  show "map (\<lambda>b. (bond_begin b, bond_end b)) (bonds (processMol mol)) =
     map (\<lambda>b. (bond_begin b, bond_end b))
       (filter (\<lambda>b. \<forall>a \<in> set (atoms mol).
                      IsHydrogen a \<longrightarrow> bond_begin b \<noteq> atom_id a \<and> bond_end b \<noteq> atom_id a)
          (bonds mol))"
    unfolding processMol_bonds eq
    by (simp add: bond_SetInRing_def SetBondOrder_def bond_UnsetAromatic_def o_def)
  show "atoms mol = [] \<and> bonds mol = [] \<longrightarrow>
      atoms (processMol mol) = [] \<and> bonds (processMol mol) = []"
    by (simp add: processMol_atoms processMol_bonds)
qed

text \<open>
  On formaldehyde the carbon and the oxygen are left, with the one bond between them, and
  the molecule with no atom is normalised to itself.
\<close>

theorem processMol_normalises_witness:
  "map atomic_num (atoms (processMol formaldehyde)) = [6, 8] \<and>
   map atom_aromatic (atoms (processMol formaldehyde)) = [False, False] \<and>
   map atom_in_ring (atoms (processMol formaldehyde)) = [True, True] \<and>
   map (\<lambda>a. (vec_x a, vec_y a, vec_z a)) (atoms (processMol formaldehyde)) =
     [(0, 0, 0), (0, 1, 0)] \<and>
   bonds (processMol formaldehyde) =
     [\<lparr>bond_begin = 2, bond_end = 0, bond_order = 1, bond_aromatic = False,
       bond_in_ring = True\<rparr>] \<and>
   processMol no_atoms = no_atoms"
  using processMol_normalises [of formaldehyde] processMol_normalises [of no_atoms]
  by (simp add: formaldehyde_def no_atoms_def molecule_def processMol_def DeleteHydrogens_def
      IsHydrogen_def atom_SetInRing_def atom_UnsetAromatic_def bond_SetInRing_def
      SetBondOrder_def bond_UnsetAromatic_def)

text \<open>
  C7. \<^verbatim>\<open>processMol\<close> is idempotent: a second run leaves the molecule (atoms, bonds,
  flags, bond orders, coordinates) as the first run left it.
\<close>

theorem processMol_idempotent: "processMol (processMol mol) = processMol mol"
proof -
  have idem: "atom_SetInRing (atom_UnsetAromatic (atom_SetInRing (atom_UnsetAromatic a))) =
      atom_SetInRing (atom_UnsetAromatic a)" for a
    by (simp add: atom_SetInRing_def atom_UnsetAromatic_def)
  have "filter (\<lambda>a. \<not> IsHydrogen a) (atoms (processMol mol)) = atoms (processMol mol)"
    by (simp add: processMol_atoms filter_map o_def)
  then have a: "atoms (processMol (processMol mol)) = atoms (processMol mol)"
    by (simp add: processMol_atoms[of "processMol mol"]) (simp add: processMol_atoms idem)
  have nh: "{a \<in> set (atoms (processMol mol)). IsHydrogen a} = {}"
    by (auto simp: processMol_atoms)
  have idemb: "bond_SetInRing (SetBondOrder n (bond_UnsetAromatic
       (bond_SetInRing (SetBondOrder n (bond_UnsetAromatic b))))) =
      bond_SetInRing (SetBondOrder n (bond_UnsetAromatic b))" for b n
    by (simp add: bond_SetInRing_def SetBondOrder_def bond_UnsetAromatic_def)
  have b: "bonds (processMol (processMol mol)) = bonds (processMol mol)"
    by (simp add: processMol_bonds[of "processMol mol"] nh) (simp add: processMol_bonds idemb)
  show ?thesis
    by (rule OBMol.equality) (simp_all add: a b processMol_flags)
qed

theorem processMol_idempotent_witness:
  "processMol (processMol formaldehyde) = processMol formaldehyde \<and>
   processMol formaldehyde \<noteq> formaldehyde"
  using processMol_idempotent [of formaldehyde]
  by (simp add: formaldehyde_def processMol_def DeleteHydrogens_def IsHydrogen_def)

section \<open>Rounding to a double\<close>

text \<open>
  Rounding keeps zero, integers are their own nearest integer, and rounding to the nearest
  integer is monotone and odd.
\<close>

lemma round_double_zero: "round_double 0 = Fin 0"
  by (simp add: round_double_def)

lemma round_ties_even_of_int: "round_ties_even (real_of_int n) = n"
  by (simp add: round_ties_even_def)

lemma round_ties_even_le: "q \<le> real_of_int n \<Longrightarrow> round_ties_even q \<le> n"
proof -
  assume q: "q \<le> real_of_int n"
  have f: "\<lfloor>q\<rfloor> \<le> n" using q by (simp add: floor_le_iff)
  show ?thesis
  proof (cases "\<lfloor>q\<rfloor> = n")
    case True
    then have "q = real_of_int \<lfloor>q\<rfloor>" using q of_int_floor_le [of q] by simp
    then show ?thesis using True by (simp add: round_ties_even_def Let_def)
  next
    case False
    then have "\<lfloor>q\<rfloor> + 1 \<le> n" using f by simp
    then show ?thesis using f by (simp add: round_ties_even_def Let_def)
  qed
qed

lemma round_ties_even_ge: "real_of_int n \<le> q \<Longrightarrow> n \<le> round_ties_even q"
proof -
  assume "real_of_int n \<le> q"
  then have "n \<le> \<lfloor>q\<rfloor>" by (simp add: le_floor_iff)
  then show ?thesis by (simp add: round_ties_even_def Let_def)
qed

lemma round_ties_even_minus: "round_ties_even (- q) = - round_ties_even q"
proof (cases "q = real_of_int \<lfloor>q\<rfloor>")
  case True
  then obtain n where "q = real_of_int n" ..
  then have "round_ties_even (- q) = round_ties_even (real_of_int (- n))"
    and "round_ties_even q = round_ties_even (real_of_int n)" by simp_all
  then show ?thesis by (simp only: round_ties_even_of_int)
next
  case False
  define f where "f = \<lfloor>q\<rfloor>"
  have "real_of_int f \<le> q" unfolding f_def by (rule of_int_floor_le)
  moreover have "q \<noteq> real_of_int f" using False by (simp add: f_def)
  ultimately have lo: "real_of_int f < q" by simp
  have hi: "q < real_of_int f + 1" by (simp add: f_def)
  have fm: "\<lfloor>- q\<rfloor> = - f - 1" using lo hi by (simp add: floor_unique)
  have ev: "even (- f - 1) = odd f" by simp
  show ?thesis
    unfolding round_ties_even_def Let_def fm f_def [symmetric] ev
    using lo hi by (auto simp add: field_simps)
qed

lemma ulp_exponent_minus: "ulp_exponent (- x) = ulp_exponent x"
  by (simp add: ulp_exponent_def)

lemma round_double_minus: "round_double (- x) = dneg (round_double x)"
proof (cases "x = 0")
  case True
  then show ?thesis by (simp add: round_double_zero)
next
  case False
  define u where "u = 2 powr real_of_int (ulp_exponent x)"
  have "round_ties_even (- x / u) = - round_ties_even (x / u)"
    using round_ties_even_minus [of "x / u"] by simp
  then show ?thesis
    using False
    by (simp add: round_double_def Let_def ulp_exponent_minus u_def [symmetric])
qed

lemma round_double_not_NaN: "round_double x \<noteq> NaN"
  by (simp add: round_double_def Let_def)

lemma round_double_nonneg:
  assumes "0 \<le> x"
  shows "round_double x = PInf \<or> (\<exists>y\<ge>0. round_double x = Fin y)"
proof (cases "x = 0")
  case True
  then show ?thesis by (simp add: round_double_zero)
next
  case False
  then have x: "0 < x" using assms by simp
  define u where "u = 2 powr real_of_int (ulp_exponent x)"
  have u: "0 < u" by (simp add: u_def)
  have "real_of_int 0 \<le> x / u" using x u by simp
  then have "0 \<le> round_ties_even (x / u)" by (rule round_ties_even_ge)
  then have "0 \<le> real_of_int (round_ties_even (x / u)) * u" using u by simp
  then show ?thesis using x False by (simp add: round_double_def Let_def u_def)
qed

text \<open>The rounded value before the test for overflow.\<close>

lemma round_double_eq:
  assumes "x \<noteq> 0"
    and "y = real_of_int (round_ties_even (x / 2 powr real_of_int (ulp_exponent x)))
               * 2 powr real_of_int (ulp_exponent x)"
  shows "round_double x = (if 2 ^ 1024 \<le> \<bar>y\<bar> then (if 0 < x then PInf else NInf) else Fin y)"
  using assms by (simp only: round_double_def Let_def if_False)

text \<open>
  A finite double is an integer multiple of the unit in its own last place, so rounding
  leaves it as it is; and a number lying below a finite double is rounded to a double that
  is not above it.
\<close>

lemma ulp_exponent_representable:
  assumes m: "\<bar>m\<bar> < 2 ^ 53" and m0: "m \<noteq> 0" and e: "- 1074 \<le> e"
  shows "ulp_exponent (real_of_int m * 2 powr real_of_int e) \<le> e"
proof -
  let ?x = "real_of_int m * 2 powr real_of_int e"
  have a: "\<bar>?x\<bar> = real_of_int \<bar>m\<bar> * 2 powr real_of_int e" by (simp add: abs_mult)
  have "real_of_int \<bar>m\<bar> < 2 ^ 53" using m by (metis of_int_less_numeral_power_cancel_iff)
  then have "real_of_int \<bar>m\<bar> < 2 powr 53" by simp
  then have "\<bar>?x\<bar> < 2 powr 53 * 2 powr real_of_int e" unfolding a by simp
  then have b: "\<bar>?x\<bar> < 2 powr (real_of_int (53 + e))" by (simp add: powr_add)
  have pos: "0 < \<bar>?x\<bar>" using m0 by simp
  have "log 2 \<bar>?x\<bar> < real_of_int (53 + e)"
    using b pos by (simp add: log_less_iff del: of_int_add)
  then have "\<lfloor>log 2 \<bar>?x\<bar>\<rfloor> < 53 + e" by (simp add: floor_less_iff del: of_int_add)
  then show ?thesis using e by (simp add: ulp_exponent_def)
qed

lemma round_double_representable:
  assumes "representable x"
  shows "round_double x = Fin x"
proof (cases "x = 0")
  case True
  then show ?thesis by (simp add: round_double_zero)
next
  case False
  obtain m e where m: "\<bar>m\<bar> < 2 ^ 53" and e: "- 1074 \<le> e" "e \<le> 971"
    and x: "x = real_of_int m * 2 powr real_of_int e"
    using assms unfolding representable_def by blast
  have m0: "m \<noteq> 0" using False x by auto
  define k where "k = ulp_exponent x"
  have ke: "k \<le> e" unfolding k_def x by (rule ulp_exponent_representable [OF m m0 e(1)])
  define d where "d = nat (e - k)"
  have d: "real_of_int e = real_of_int k + real d" using ke by (simp add: d_def)
  have q: "x / 2 powr real_of_int k = real_of_int (m * 2 ^ d)"
    unfolding x d by (simp add: powr_add powr_realpow)
  have r: "round_ties_even (x / 2 powr real_of_int k) = m * 2 ^ d"
    unfolding q by (rule round_ties_even_of_int)
  have y: "real_of_int (m * 2 ^ d) * 2 powr real_of_int k = x"
    using q by (simp add: field_simps)
  have "real_of_int \<bar>m\<bar> < 2 ^ 53" using m by (metis of_int_less_numeral_power_cancel_iff)
  moreover have "(2::real) powr real_of_int e \<le> 2 powr real_of_int 971"
    using e by (intro powr_mono) simp_all
  moreover have "(0::real) < 2 powr real_of_int e" by simp
  ultimately have "real_of_int \<bar>m\<bar> * 2 powr real_of_int e < 2 ^ 53 * 2 powr real_of_int 971"
    by (intro mult_less_le_imp_less) simp_all
  moreover have "\<bar>x\<bar> = real_of_int \<bar>m\<bar> * 2 powr real_of_int e"
    unfolding x by (simp add: abs_mult)
  ultimately have "\<bar>x\<bar> < 2 ^ 53 * 2 powr real_of_int 971" by simp
  also have "(2::real) ^ 53 * 2 powr real_of_int 971 = 2 ^ 1024"
    by (simp add: powr_realpow power_add [symmetric] del: power_add)
  finally have b: "\<bar>x\<bar> < 2 ^ 1024" .
  have "round_double x = (if 2 ^ 1024 \<le> \<bar>x\<bar> then (if 0 < x then PInf else NInf) else Fin x)"
    by (simp only: round_double_def Let_def k_def [symmetric] r y False if_False)
  then show ?thesis using b by simp
qed

lemma ulp_exponent_mono:
  assumes "0 < x" "x \<le> b"
  shows "ulp_exponent x \<le> ulp_exponent b"
proof -
  have "log 2 \<bar>x\<bar> \<le> log 2 \<bar>b\<bar>" using assms by simp
  then have "\<lfloor>log 2 \<bar>x\<bar>\<rfloor> \<le> \<lfloor>log 2 \<bar>b\<bar>\<rfloor>" by (rule floor_mono)
  then show ?thesis by (simp add: ulp_exponent_def)
qed

lemma rounded_le_representable:
  assumes x: "0 < x" "x \<le> b" and b: "representable b"
    and y: "y = real_of_int (round_ties_even (x / 2 powr real_of_int (ulp_exponent x)))
               * 2 powr real_of_int (ulp_exponent x)"
  shows "0 \<le> y \<and> y \<le> b"
proof -
  obtain m e where m: "\<bar>m\<bar> < 2 ^ 53" and e: "- 1074 \<le> e" "e \<le> 971"
    and bm: "b = real_of_int m * 2 powr real_of_int e"
    using b unfolding representable_def by blast
  have b0: "0 < b" using x by simp
  have m0: "m \<noteq> 0" using b0 bm by auto
  define k where "k = ulp_exponent x"
  define u where "u = 2 powr real_of_int k"
  have u: "0 < u" by (simp add: u_def)
  have "k \<le> ulp_exponent b" unfolding k_def by (rule ulp_exponent_mono [OF x])
  also have "\<dots> \<le> e" unfolding bm by (rule ulp_exponent_representable [OF m m0 e(1)])
  finally have ke: "k \<le> e" .
  define d where "d = nat (e - k)"
  have d: "real_of_int e = real_of_int k + real d" using ke by (simp add: d_def)
  have q: "b / u = real_of_int (m * 2 ^ d)"
    unfolding bm d u_def by (simp add: powr_add powr_realpow)
  have "x / u \<le> b / u" using x u by (simp add: divide_right_mono)
  then have "x / u \<le> real_of_int (m * 2 ^ d)" by (simp only: q)
  then have "round_ties_even (x / u) \<le> m * 2 ^ d" by (rule round_ties_even_le)
  then have "real_of_int (round_ties_even (x / u)) \<le> real_of_int (m * 2 ^ d)"
    by (simp only: of_int_le_iff)
  then have "real_of_int (round_ties_even (x / u)) * u \<le> real_of_int (m * 2 ^ d) * u"
    using u by (simp only: mult_le_cancel_right_pos)
  also have "real_of_int (m * 2 ^ d) * u = b" using q u by (simp add: field_simps)
  finally have le: "y \<le> b" unfolding y k_def [symmetric] u_def [symmetric] .
  have "real_of_int 0 \<le> x / u" using x u by simp
  then have "0 \<le> round_ties_even (x / u)" by (rule round_ties_even_ge)
  then have "0 \<le> real_of_int (round_ties_even (x / u)) * u" using u by simp
  then have "0 \<le> y" unfolding y k_def [symmetric] u_def [symmetric] .
  then show ?thesis using le by simp
qed

lemma representable_less:
  assumes "representable b"
  shows "\<bar>b\<bar> < 2 ^ 1024"
proof -
  obtain m e where m: "\<bar>m\<bar> < 2 ^ 53" and e: "- 1074 \<le> e" "e \<le> 971"
    and x: "b = real_of_int m * 2 powr real_of_int e"
    using assms unfolding representable_def by blast
  have "real_of_int \<bar>m\<bar> < 2 ^ 53" using m by (metis of_int_less_numeral_power_cancel_iff)
  moreover have "(2::real) powr real_of_int e \<le> 2 powr real_of_int 971"
    using e by (intro powr_mono) simp_all
  moreover have "(0::real) < 2 powr real_of_int e" by simp
  ultimately have "real_of_int \<bar>m\<bar> * 2 powr real_of_int e < 2 ^ 53 * 2 powr real_of_int 971"
    by (intro mult_less_le_imp_less) simp_all
  moreover have "\<bar>b\<bar> = real_of_int \<bar>m\<bar> * 2 powr real_of_int e"
    unfolding x by (simp add: abs_mult)
  ultimately have "\<bar>b\<bar> < 2 ^ 53 * 2 powr real_of_int 971" by simp
  also have "(2::real) ^ 53 * 2 powr real_of_int 971 = 2 ^ 1024"
    by (simp add: powr_realpow power_add [symmetric] del: power_add)
  finally show ?thesis .
qed

lemma round_double_le_pos:
  assumes x: "0 \<le> x" "x \<le> b" and b: "representable b"
  shows "\<exists>y. round_double x = Fin y \<and> 0 \<le> y \<and> y \<le> b"
proof (cases "x = 0")
  case True
  then show ?thesis using x by (simp add: round_double_zero)
next
  case False
  then have x0: "0 < x" using x by simp
  define y where "y = real_of_int (round_ties_even (x / 2 powr real_of_int (ulp_exponent x)))
               * 2 powr real_of_int (ulp_exponent x)"
  have yb: "0 \<le> y \<and> y \<le> b" by (rule rounded_le_representable [OF x0 x(2) b y_def])
  have "\<bar>b\<bar> < 2 ^ 1024" by (rule representable_less [OF b])
  then have "\<not> 2 ^ 1024 \<le> \<bar>y\<bar>" using yb by simp
  then have "round_double x = Fin y" using round_double_eq [OF False y_def] by simp
  then show ?thesis using yb by simp
qed

lemma round_double_le:
  assumes x: "\<bar>x\<bar> \<le> b" and b: "representable b"
  shows "\<exists>y. round_double x = Fin y \<and> \<bar>y\<bar> \<le> b"
proof (cases "0 \<le> x")
  case True
  then obtain y where "round_double x = Fin y" "0 \<le> y" "y \<le> b"
    using round_double_le_pos [OF True _ b] x by auto
  then show ?thesis by simp
next
  case False
  then have "0 \<le> - x" "- x \<le> b" using x by simp_all
  then obtain y where y: "round_double (- x) = Fin y" "0 \<le> y" "y \<le> b"
    using round_double_le_pos [OF _ _ b] by blast
  have "round_double x = dneg (round_double (- x))"
    using round_double_minus [of "- x"] by simp
  then have "round_double x = Fin (- y)" using y by simp
  then show ?thesis using y by simp
qed

text \<open>
  A number of the normal range is rounded to a double that is not below the power of two
  under it; from \<open>2\<^sup>1\<^sup>0\<^sup>2\<^sup>4\<close> on the result is the infinity.
\<close>

lemma rounded_ge_pow2:
  assumes x: "0 < x" and k: "2 powr real_of_int k \<le> x" "- 1022 \<le> k"
    and y: "y = real_of_int (round_ties_even (x / 2 powr real_of_int (ulp_exponent x)))
               * 2 powr real_of_int (ulp_exponent x)"
  shows "2 powr real_of_int k \<le> y"
proof -
  define fl where "fl = \<lfloor>log 2 x\<rfloor>"
  have "real_of_int k \<le> log 2 x" using x k by (simp add: le_log_iff)
  then have kf: "k \<le> fl" by (simp add: fl_def le_floor_iff)
  have ue: "ulp_exponent x = fl - 52"
    using kf k x by (simp add: ulp_exponent_def fl_def)
  define u where "u = 2 powr real_of_int (fl - 52)"
  have u: "0 < u" by (simp add: u_def)
  have "real_of_int fl \<le> log 2 x" unfolding fl_def by (rule of_int_floor_le)
  then have lo: "2 powr real_of_int fl \<le> x" using x by (simp add: le_log_iff)
  have "real_of_int fl = real_of_int (fl - 52) + real (52::nat)" by simp
  then have "2 powr real_of_int fl = u * 2 ^ 52"
    unfolding u_def by (simp only: powr_add powr_realpow zero_less_numeral)
  then have q: "2 powr real_of_int fl / u = real_of_int (2 ^ 52)" using u by simp
  have "2 powr real_of_int fl / u \<le> x / u" using lo u by (simp add: divide_right_mono)
  then have "real_of_int (2 ^ 52) \<le> x / u" by (simp only: q)
  then have "2 ^ 52 \<le> round_ties_even (x / u)" by (rule round_ties_even_ge)
  then have "real_of_int (2 ^ 52) \<le> real_of_int (round_ties_even (x / u))"
    by (simp only: of_int_le_iff)
  then have "real_of_int (2 ^ 52) * u \<le> real_of_int (round_ties_even (x / u)) * u"
    using u by (simp only: mult_le_cancel_right_pos)
  moreover have "real_of_int (2 ^ 52) * u = 2 powr real_of_int fl" using q u by (simp add: field_simps)
  ultimately have "2 powr real_of_int fl \<le> real_of_int (round_ties_even (x / u)) * u"
    by (simp only:)
  then have b: "2 powr real_of_int fl \<le> y" unfolding y ue u_def .
  have a: "(2::real) powr real_of_int k \<le> 2 powr real_of_int fl"
    using kf by (intro powr_mono) simp_all
  show ?thesis by (rule order_trans [OF a b])
qed

lemma round_double_overflow:
  assumes "2 ^ 1024 \<le> x"
  shows "round_double x = PInf"
proof -
  have x: "0 < x" using assms by (simp add: less_le_trans [OF zero_less_power])
  define y where "y = real_of_int (round_ties_even (x / 2 powr real_of_int (ulp_exponent x)))
               * 2 powr real_of_int (ulp_exponent x)"
  have "(2::real) powr real_of_int 1024 = 2 ^ 1024" by (simp add: powr_realpow)
  then have "2 powr real_of_int 1024 \<le> x" using assms by simp
  then have "2 powr real_of_int 1024 \<le> y" by (rule rounded_ge_pow2 [OF x _ _ y_def]) simp
  then have "2 ^ 1024 \<le> \<bar>y\<bar>" by (simp add: powr_realpow)
  then show ?thesis using round_double_eq [OF _ y_def] x by simp
qed

lemma round_double_between_1_2:
  assumes "1 \<le> x" "x \<le> 2"
  shows "\<exists>y. round_double x = Fin y \<and> 1 \<le> y \<and> y \<le> 2"
proof -
  have x: "0 < x" using assms by simp
  have r: "representable 2"
    unfolding representable_def by (rule exI [of _ 1], rule exI [of _ 1]) simp
  obtain y where y: "round_double x = Fin y" "y \<le> 2"
    using round_double_le_pos [OF _ assms(2) r] x by auto
  define z where "z = real_of_int (round_ties_even (x / 2 powr real_of_int (ulp_exponent x)))
               * 2 powr real_of_int (ulp_exponent x)"
  have "2 powr real_of_int 0 \<le> z" by (rule rounded_ge_pow2 [OF x _ _ z_def]) (use assms in simp_all)
  then have z1: "1 \<le> z" by simp
  have "round_double x = Fin z \<or> round_double x = PInf \<or> round_double x = NInf"
    using round_double_eq [OF _ z_def] x by (auto split: if_splits)
  then have "y = z" using y by auto
  then show ?thesis using y z1 by simp
qed

text \<open>The doubles that the examples compute with.\<close>

lemma representable_pow2: "n \<le> 1023 \<Longrightarrow> representable (2 ^ n)"
proof (cases "n \<le> 971")
  case True
  have "(2::real) ^ n = real_of_int 1 * 2 powr real_of_int (int n)"
    by (simp add: powr_realpow)
  then show ?thesis
    unfolding representable_def using True
    by (intro exI [of _ 1] exI [of _ "int n"]) simp
next
  case False
  assume n: "n \<le> 1023"
  define d where "d = n - 971"
  have d: "d \<le> 52" "n = d + 971" using False n by (simp_all add: d_def)
  have "(2::int) ^ d \<le> 2 ^ 52" using d by (intro power_increasing) simp_all
  then have m: "\<bar>(2::int) ^ d\<bar> < 2 ^ 53" by simp
  have p: "(2::real) powr real_of_int 971 = 2 ^ 971" using powr_realpow [of 2 971] by simp
  have "(2::real) ^ n = 2 ^ d * 2 ^ 971" unfolding d(2) by (rule power_add)
  moreover have "real_of_int (2 ^ d) = 2 ^ d" by simp
  ultimately have "(2::real) ^ n = real_of_int (2 ^ d) * 2 powr real_of_int 971"
    by (simp only: p)
  then show ?thesis
    unfolding representable_def using m
    by (intro exI [of _ "2 ^ d"] exI [of _ 971]) simp
qed

lemma representable_minus: "representable x \<Longrightarrow> representable (- x)"
proof -
  assume "representable x"
  then obtain m e where m: "\<bar>m\<bar> < 2 ^ 53" and e: "- 1074 \<le> e" "e \<le> 971"
    and x: "x = real_of_int m * 2 powr real_of_int e"
    unfolding representable_def by blast
  have "- x = real_of_int (- m) * 2 powr real_of_int e" using x by simp
  then show ?thesis
    unfolding representable_def using m e
    by (intro exI [of _ "- m"] exI [of _ e]) simp
qed

lemma representable_half: "representable (1 / 2)"
proof -
  have "(1::real) / 2 = real_of_int 1 * 2 powr real_of_int (- 1)"
    by (simp add: powr_minus_divide)
  then show ?thesis
    unfolding representable_def by (intro exI [of _ 1] exI [of _ "- 1"]) simp
qed

lemma representable_scaled:
  assumes "n < 2 ^ 53" "e \<le> 971"
  shows "representable (real n * 2 ^ e)"
proof -
  have "real n * 2 ^ e = real_of_int (int n) * 2 powr real_of_int (int e)"
    by (simp add: powr_realpow)
  moreover have "\<bar>int n\<bar> < 2 ^ 53" using assms(1) by (simp add: of_nat_less_numeral_power_cancel_iff [symmetric] del: of_nat_less_numeral_power_cancel_iff)
  ultimately show ?thesis
    unfolding representable_def using assms(2)
    by (intro exI [of _ "int n"] exI [of _ "int e"]) simp
qed

lemma round_double_pow2: "n \<le> 1023 \<Longrightarrow> round_double (2 ^ n) = Fin (2 ^ n)"
  by (rule round_double_representable [OF representable_pow2])

lemma round_double_minus_pow2: "n \<le> 1023 \<Longrightarrow> round_double (- (2 ^ n)) = Fin (- (2 ^ n))"
  by (rule round_double_representable [OF representable_minus [OF representable_pow2]])

lemma round_double_small:
  "round_double 1 = Fin 1" "round_double (- 1) = Fin (- 1)" "round_double 2 = Fin 2"
  "round_double 4 = Fin 4" "round_double (1 / 2) = Fin (1 / 2)"
  "round_double (- (1 / 2)) = Fin (- (1 / 2))" "round_double (- 1 / 2) = Fin (- 1 / 2)"
  using round_double_pow2 [of 0] round_double_minus_pow2 [of 0] round_double_pow2 [of 1]
    round_double_pow2 [of 2] round_double_representable [OF representable_half]
    round_double_representable [OF representable_minus [OF representable_half]]
  by simp_all

text \<open>
  The double nearest to \<open>\<surd>2\<close> is \<open>6369051672525773 / 2\<^sup>5\<^sup>2\<close>, the value
  \<^verbatim>\<open>1.4142135623730951\<close> that \<^verbatim>\<open>sqrt(2.0)\<close> returns.
\<close>

lemma floor_sqrt_2: "\<lfloor>sqrt 2 * 2 ^ 52\<rfloor> = 6369051672525772"
proof -
  have "sqrt (2 * (2 ^ 52)\<^sup>2) = sqrt 2 * 2 ^ 52"
    by (simp only: real_sqrt_mult real_sqrt_abs) simp
  moreover have "(2::real) * (2 ^ 52)\<^sup>2 = 2 * 2 ^ 104" by simp
  ultimately have e: "sqrt 2 * 2 ^ 52 = sqrt (2 * 2 ^ 104)" by (simp only:)
  have "(6369051672525772::real)\<^sup>2 \<le> 2 * 2 ^ 104" by simp
  then have lo: "6369051672525772 \<le> sqrt (2 * 2 ^ 104)" by (rule real_le_rsqrt)
  have "(2::real) * 2 ^ 104 < 6369051672525773\<^sup>2" by simp
  then have hi: "sqrt (2 * 2 ^ 104) < 6369051672525773" by (intro real_less_lsqrt) simp_all
  show ?thesis unfolding e using lo hi by (intro floor_unique) simp_all
qed

lemma frac_sqrt_2: "1 / 2 < sqrt 2 * 2 ^ 52 - 6369051672525772"
proof -
  have "sqrt (2 * (2 ^ 53)\<^sup>2) = sqrt 2 * 2 ^ 53"
    by (simp only: real_sqrt_mult real_sqrt_abs) simp
  moreover have "(2::real) * (2 ^ 53)\<^sup>2 = 2 * 2 ^ 106" by simp
  moreover have "sqrt 2 * 2 ^ 53 = 2 * (sqrt 2 * 2 ^ 52)" by simp
  ultimately have e: "2 * (sqrt 2 * 2 ^ 52) = sqrt (2 * 2 ^ 106)" by (simp only:)
  have "(12738103345051545::real)\<^sup>2 < 2 * 2 ^ 106" by simp
  then have "12738103345051545 < sqrt (2 * 2 ^ 106)" by (rule real_less_rsqrt)
  then show ?thesis unfolding e [symmetric] by simp
qed

lemma log_sqrt_2: "\<lfloor>log 2 (sqrt 2)\<rfloor> = 0"
proof -
  have h: "log 2 (sqrt 2) = 1 / 2" by (simp add: log_def ln_sqrt)
  have "\<lfloor>1 / 2 :: real\<rfloor> = 0" by simp
  then show ?thesis by (subst h)
qed

lemma round_double_sqrt_2: "round_double (sqrt 2) = Fin (6369051672525773 / 2 ^ 52)"
proof -
  have u: "ulp_exponent (sqrt 2) = - 52" by (simp add: ulp_exponent_def log_sqrt_2)
  have p: "2 powr real_of_int (- 52) = 1 / 2 ^ 52" by (simp add: powr_minus_divide powr_realpow [symmetric])
  have q: "sqrt 2 / (1 / 2 ^ 52) = sqrt 2 * 2 ^ 52" by simp
  have r: "round_ties_even (sqrt 2 * 2 ^ 52) = 6369051672525773"
    unfolding round_ties_even_def Let_def floor_sqrt_2 using frac_sqrt_2 by simp
  have "round_double (sqrt 2) =
      (if 2 ^ 1024 \<le> \<bar>real_of_int 6369051672525773 * (1 / 2 ^ 52)\<bar> then (if 0 < sqrt 2 then PInf else NInf)
       else Fin (real_of_int 6369051672525773 * (1 / 2 ^ 52)))"
    by (rule round_double_eq) (simp, simp only: u p q r)
  then show ?thesis by simp
qed

section \<open>Comparing doubles\<close>

lemma dless_irrefl: "\<not> dless a a"
  by (cases a) simp_all

lemma dless_trans: "dless a b \<Longrightarrow> dless b c \<Longrightarrow> dless a c"
  by (cases a; cases b; cases c) simp_all

lemma dless_asym: "dless a b \<Longrightarrow> \<not> dless b a"
  using dless_trans dless_irrefl by blast

lemma is_finite_iff: "is_finite d \<longleftrightarrow> (\<exists>x. d = Fin x)"
  by (cases d) (simp_all add: is_finite_def)



section \<open>Values that are never negative\<close>

text \<open>
  A square, a sum of squares, its quotient by a positive count and the square root of
  that are finite and not negative, or the positive infinity, or a NaN, whatever the
  operands are: rounding keeps the sign, and overflow goes to the positive infinity.
\<close>

lemma not_negative_simps:
  "not_negative (Fin a) = (0 \<le> a)" "not_negative PInf" "\<not> not_negative NInf" "not_negative NaN"
  by (simp_all add: not_negative_def)

lemma not_negative_cases:
  "not_negative d \<longleftrightarrow> d = PInf \<or> d = NaN \<or> (\<exists>a\<ge>0. d = Fin a)"
  by (cases d) (simp_all add: not_negative_def)

lemma round_double_not_negative: "0 \<le> x \<Longrightarrow> not_negative (round_double x)"
  using round_double_nonneg [of x] by (auto simp add: not_negative_simps)

lemma SQUARE_not_negative: "not_negative (SQUARE x)"
  by (cases x) (simp_all add: SQUARE_def not_negative_simps round_double_not_negative inf_of_sign_def)

lemma dadd_not_negative: "not_negative a \<Longrightarrow> not_negative b \<Longrightarrow> not_negative (dadd a b)"
  by (cases a; cases b) (simp_all add: not_negative_simps round_double_not_negative)

lemma fold_dadd_not_negative:
  "(\<forall>i \<in> set js. not_negative (g i)) \<Longrightarrow> not_negative s \<Longrightarrow>
   not_negative (fold (\<lambda>i s. dadd s (g i)) js s)"
  by (induction js arbitrary: s) (simp_all add: dadd_not_negative)

lemma ddiv_not_negative: "not_negative a \<Longrightarrow> 0 < b \<Longrightarrow> not_negative (ddiv a (Fin b))"
  by (cases a) (simp_all add: not_negative_simps round_double_not_negative inf_of_sign_def)

lemma dsqrt_not_negative: "not_negative a \<Longrightarrow> not_negative (dsqrt a)"
  by (cases a) (simp_all add: not_negative_simps round_double_not_negative)

lemma sq_dist_not_negative: "not_negative (sq_dist r f i)"
  unfolding sq_dist_def by (intro dadd_not_negative SQUARE_not_negative)

lemma calc_rms_not_negative: "not_negative (calc_rms r f N)"
proof (cases "N = 0")
  case True
  then show ?thesis by (simp add: calc_rms_def not_negative_simps)
next
  case False
  have "not_negative (fold (\<lambda>i d2. dadd d2 (sq_dist r f i)) [0..<N] (Fin 0))"
    by (rule fold_dadd_not_negative) (simp_all add: sq_dist_not_negative not_negative_simps)
  then have "not_negative (dsqrt (ddiv (fold (\<lambda>i d2. dadd d2 (sq_dist r f i)) [0..<N] (Fin 0))
                       (Fin (real N))))"
    using False by (intro dsqrt_not_negative ddiv_not_negative) simp_all
  then show ?thesis using False by (simp add: calc_rms_def of_unsigned_def)
qed

lemma not_negative_not_less_zero: "not_negative d \<Longrightarrow> \<not> dless d (Fin 0)"
  by (cases d) (simp_all add: not_negative_simps)

section \<open>One call of the functor and the run of the mapper\<close>

lemma call_cases:
  "MapRMSDFunctor_call q f mp =
     (case mapping_rmsd q (ref f) (test f) (minimize f) mp of
        Inl e \<Rightarrow> Inl e
      | Inr d \<Rightarrow> Inr (False, f\<lparr>bestRMSD := (if dless d (bestRMSD f) then d else bestRMSD f)\<rparr>))"
  by (simp add: MapRMSDFunctor_call_def split: sum.splits)

lemma call_Inr:
  assumes "MapRMSDFunctor_call q f mp = Inr (stop, f')"
  shows "\<not> stop" and "ref f' = ref f" and "test f' = test f" and "minimize f' = minimize f"
    and "MapRMSDFunctor.more f' = MapRMSDFunctor.more f"
    and "bestRMSD f' = bestRMSD f \<or> dless (bestRMSD f') (bestRMSD f)"
    and "\<exists>d. mapping_rmsd q (ref f) (test f) (minimize f) mp = Inr d \<and> \<not> dless d (bestRMSD f') \<and>
            (bestRMSD f' = bestRMSD f \<or> bestRMSD f' = d)"
  using assms by (auto simp: call_cases dless_irrefl split: sum.splits if_splits)

text \<open>
  The run of the mapper over any list of mappings, from any state of the functor: if it
  returns, the two molecules and the flag are as before, the best RMSD is the old one or
  smaller, it is the old one or the RMSD of a visited mapping, and no visited mapping has
  a smaller RMSD.
\<close>

lemma MapGeneric_call_Inr:
  "MapGeneric (MapRMSDFunctor_call q) f mps = Inr f' \<Longrightarrow>
     ref f' = ref f \<and> test f' = test f \<and> minimize f' = minimize f \<and>
     MapRMSDFunctor.more f' = MapRMSDFunctor.more f \<and>
     (bestRMSD f' = bestRMSD f \<or> dless (bestRMSD f') (bestRMSD f)) \<and>
     (bestRMSD f' = bestRMSD f \<or>
        (\<exists>mp \<in> set mps. mapping_rmsd q (ref f) (test f) (minimize f) mp = Inr (bestRMSD f'))) \<and>
     (\<forall>mp \<in> set mps. \<exists>d. mapping_rmsd q (ref f) (test f) (minimize f) mp = Inr d \<and>
         \<not> dless d (bestRMSD f'))"
proof (induction mps arbitrary: f)
  case Nil
  then show ?case by simp
next
  case (Cons mp mps)
  from Cons.prems obtain stop f1 where
    c: "MapRMSDFunctor_call q f mp = Inr (stop, f1)"
    by (auto split: sum.splits)
  note c1 = call_Inr[OF c]
  from Cons.prems c c1(1) have r: "MapGeneric (MapRMSDFunctor_call q) f1 mps = Inr f'"
    by simp
  note ih = Cons.IH[OF r]
  from c1(7) obtain d where d: "mapping_rmsd q (ref f) (test f) (minimize f) mp = Inr d"
      "\<not> dless d (bestRMSD f1)" "bestRMSD f1 = bestRMSD f \<or> bestRMSD f1 = d"
    by blast
  have mono: "bestRMSD f' = bestRMSD f \<or> dless (bestRMSD f') (bestRMSD f)"
    using ih c1(6) dless_trans by metis
  have att: "bestRMSD f' = bestRMSD f \<or>
        (\<exists>mp' \<in> set (mp # mps). mapping_rmsd q (ref f) (test f) (minimize f) mp' = Inr (bestRMSD f'))"
  proof -
    from ih have "bestRMSD f' = bestRMSD f1 \<or>
        (\<exists>mp' \<in> set mps. mapping_rmsd q (ref f1) (test f1) (minimize f1) mp' = Inr (bestRMSD f'))"
      by blast
    then show ?thesis
      using d c1(2,3,4) by auto
  qed
  have lb_d: "\<not> dless d (bestRMSD f')"
    using ih d(2) dless_trans by metis
  have lb: "\<forall>mp' \<in> set (mp # mps). \<exists>d. mapping_rmsd q (ref f) (test f) (minimize f) mp' = Inr d \<and>
         \<not> dless d (bestRMSD f')"
    using ih d(1) lb_d c1(2,3,4) by auto
  show ?case
    using ih c1 mono att lb by simp
qed

lemma MapGeneric_call_total:
  "(\<forall>mp \<in> set mps. \<exists>d. mapping_rmsd q (ref f) (test f) (minimize f) mp = Inr d) \<Longrightarrow>
   \<exists>f'. MapGeneric (MapRMSDFunctor_call q) f mps = Inr f'"
proof (induction mps arbitrary: f)
  case Nil
  then show ?case by simp
next
  case (Cons mp mps)
  from Cons.prems obtain d where d: "mapping_rmsd q (ref f) (test f) (minimize f) mp = Inr d"
    by auto
  define f1 where "f1 = f\<lparr>bestRMSD := (if dless d (bestRMSD f) then d else bestRMSD f)\<rparr>"
  have c: "MapRMSDFunctor_call q f mp = Inr (False, f1)"
    by (simp add: call_cases d f1_def)
  have "\<forall>mp \<in> set mps. \<exists>d. mapping_rmsd q (ref f1) (test f1) (minimize f1) mp = Inr d"
    using Cons.prems by (simp add: f1_def)
  from Cons.IH[OF this] show ?case
    by (simp add: c)
qed

lemma MapGeneric_call_fails:
  "\<exists>mp \<in> set mps. \<exists>e. mapping_rmsd q (ref f) (test f) (minimize f) mp = Inl e \<Longrightarrow>
   \<exists>e. MapGeneric (MapRMSDFunctor_call q) f mps = Inl e"
proof (induction mps arbitrary: f)
  case Nil
  then show ?case by simp
next
  case (Cons mp mps)
  show ?case
  proof (cases "mapping_rmsd q (ref f) (test f) (minimize f) mp")
    case (Inl e)
    then show ?thesis by (simp add: call_cases)
  next
    case (Inr d)
    define f1 where "f1 = f\<lparr>bestRMSD := (if dless d (bestRMSD f) then d else bestRMSD f)\<rparr>"
    have c: "MapRMSDFunctor_call q f mp = Inr (False, f1)"
      by (simp add: call_cases Inr f1_def)
    have "\<exists>mp \<in> set mps. \<exists>e. mapping_rmsd q (ref f1) (test f1) (minimize f1) mp = Inl e"
      using Cons.prems Inr by (auto simp: f1_def)
    from Cons.IH[OF this] show ?thesis
      by (simp add: c)
  qed
qed

lemma new_functor_simps [simp]:
  "ref (new_MapRMSDFunctor r t mn) = r"
  "test (new_MapRMSDFunctor r t mn) = t"
  "minimize (new_MapRMSDFunctor r t mn) = mn"
  "bestRMSD (new_MapRMSDFunctor r t mn) = HUGE_VAL"
  by (simp_all add: new_MapRMSDFunctor_def)


section \<open>The coordinate arrays\<close>

lemma getatom_in_range: "i < NumAtoms m \<Longrightarrow> GetAtom m (i + 1) = Some (atoms m ! i)"
  by (simp add: GetAtom_def)

lemma getatom_out_of_range: "\<not> i < NumAtoms m \<Longrightarrow> GetAtom m (i + 1) = None"
  by (simp add: GetAtom_def)

lemma fill_coords_in_range:
  "in_range r t mp \<Longrightarrow>
   fill_coords r t mp = Inr (concat (map (\<lambda>p. GetVector (atoms r ! fst p)) mp),
                             concat (map (\<lambda>p. GetVector (atoms t ! snd p)) mp))"
  unfolding in_range_def
  by (induction mp) (simp_all add: getatom_in_range del: One_nat_def)

lemma fill_coords_out_of_range:
  "\<not> in_range r t mp \<Longrightarrow> fill_coords r t mp = Inl AssertionFailed"
  unfolding in_range_def
proof (induction mp)
  case Nil then show ?case by simp
next
  case (Cons p ps)
  show ?case
  proof (cases "fst p < NumAtoms r \<and> snd p < NumAtoms t")
    case True
    with Cons have "fill_coords r t ps = Inl AssertionFailed" by simp
    with True show ?thesis by (simp add: getatom_in_range del: One_nat_def)
  next
    case False
    then show ?thesis
      by (auto simp: getatom_out_of_range getatom_in_range simp del: One_nat_def split: option.splits)
  qed
qed


lemma coords_length: "length (concat (map (\<lambda>p. GetVector (g p)) mp)) = 3 * length mp"
  by (induction mp) (simp_all add: GetVector_def)

lemma mapping_rmsd_not_in_range:
  "\<not> in_range r t mp \<Longrightarrow> mapping_rmsd q r t mn mp = Inl AssertionFailed"
  by (simp add: mapping_rmsd_def fill_coords_out_of_range)

lemma mapping_rmsd_raw:
  "in_range r t mp \<Longrightarrow>
   mapping_rmsd q r t False mp =
     Inr (calc_rms (concat (map (\<lambda>p. GetVector (atoms r ! fst p)) mp))
                   (concat (map (\<lambda>p. GetVector (atoms t ! snd p)) mp)) (length mp))"
  by (simp add: mapping_rmsd_def fill_coords_in_range)

lemma mapping_rmsd_not_negative:
  "mapping_rmsd q r t mn mp = Inr d \<Longrightarrow> not_negative d"
  by (auto simp add: mapping_rmsd_def Let_def calc_rms_not_negative split: sum.splits prod.splits if_splits)

lemma mapping_rmsd_in_range:
  assumes "in_range r t mp"
  shows "\<exists>d. mapping_rmsd q r t mn mp = Inr d \<and> not_negative d"
proof -
  have "\<exists>d. mapping_rmsd q r t mn mp = Inr d"
    by (simp add: mapping_rmsd_def fill_coords_in_range [OF assms] Let_def split: prod.splits)
  then show ?thesis using mapping_rmsd_not_negative by blast
qed

text \<open>The mapping of no pairs: both arrays are empty, and so they stay.\<close>

lemma centroid_empty: "centroid [] 0 = [NaN, NaN, NaN]"
  by (simp add: centroid_def column_sum_def of_unsigned_def inf_of_sign_def)

lemma fit_empty: "fit_coords q [] [] 0 = ([], [])"
  by (simp add: fit_coords_def subtract_centroid_def rotate_coords_def Let_def)

lemma rmsd_empty: "mapping_rmsd q r t mn [] = Inr (Fin 0)"
  by (simp add: mapping_rmsd_def fit_empty calc_rms_def)


section \<open>Coordinates too small to overflow\<close>

text \<open>
  When the coordinates are at most \<open>2\<^sup>n\<close> in magnitude, a difference is at most
  \<open>2\<^sup>n\<^sup>+\<^sup>1\<close>, its square at most \<open>2\<^sup>2\<^sup>n\<^sup>+\<^sup>2\<close>, the squared distance of two points at most
  \<open>2\<^sup>2\<^sup>n\<^sup>+\<^sup>4\<close> and the sum over \<open>N\<close> points at most \<open>N \<cdot> 2\<^sup>2\<^sup>n\<^sup>+\<^sup>4\<close>. Each bound is itself
  a finite double when \<open>n \<le> 480\<close> and \<open>N < 2\<^sup>3\<^sup>2\<close>, so no rounding step goes above it.
\<close>

lemma magnitude_le_iff: "magnitude_le n d \<longleftrightarrow> (\<exists>x. d = Fin x \<and> \<bar>x\<bar> \<le> 2 ^ n)"
  by (cases d) (simp_all add: magnitude_le_def)

lemma between_zero_iff: "between_zero b d \<longleftrightarrow> (\<exists>x. d = Fin x \<and> 0 \<le> x \<and> x \<le> b)"
  by (cases d) (simp_all add: between_zero_def)

lemma between_zero_mono: "between_zero a d \<Longrightarrow> a \<le> b \<Longrightarrow> between_zero b d"
  by (auto simp add: between_zero_iff)

lemma round_double_between:
  "0 \<le> x \<Longrightarrow> x \<le> b \<Longrightarrow> representable b \<Longrightarrow> between_zero b (round_double x)"
  using round_double_le_pos [of x b] by (auto simp add: between_zero_iff)

lemma round_double_magnitude:
  "\<bar>x\<bar> \<le> 2 ^ n \<Longrightarrow> n \<le> 1023 \<Longrightarrow> magnitude_le n (round_double x)"
  using round_double_le [of x "2 ^ n"] representable_pow2 [of n]
  by (auto simp add: magnitude_le_iff)

lemma dsub_magnitude:
  assumes "magnitude_le n x" "magnitude_le n y" "n < 1023"
  shows "magnitude_le (Suc n) (dsub x y)"
proof -
  obtain a b where a: "x = Fin a" "\<bar>a\<bar> \<le> 2 ^ n" and b: "y = Fin b" "\<bar>b\<bar> \<le> 2 ^ n"
    using assms by (auto simp add: magnitude_le_iff)
  have "\<bar>a + - b\<bar> \<le> 2 ^ Suc n" using a b by simp
  then have "magnitude_le (Suc n) (round_double (a + - b))"
    using assms(3) by (intro round_double_magnitude) simp_all
  then show ?thesis by (simp add: dsub_def a b)
qed

lemma SQUARE_between:
  assumes "magnitude_le n x" "2 * n \<le> 1023"
  shows "between_zero (2 ^ (2 * n)) (SQUARE x)"
proof -
  obtain a where a: "x = Fin a" "\<bar>a\<bar> \<le> 2 ^ n"
    using assms by (auto simp add: magnitude_le_iff)
  have "\<bar>a\<bar> * \<bar>a\<bar> \<le> 2 ^ n * 2 ^ n" using a by (intro mult_mono) simp_all
  then have "a * a \<le> 2 ^ (2 * n)" by (simp add: power_add [symmetric] mult_2 abs_mult_self_eq)
  then have "between_zero (2 ^ (2 * n)) (round_double (a * a))"
    using assms(2) by (intro round_double_between representable_pow2) simp_all
  then show ?thesis by (simp add: SQUARE_def a)
qed

lemma dadd_between:
  assumes "between_zero a x" "between_zero b y" "representable (a + b)"
  shows "between_zero (a + b) (dadd x y)"
proof -
  obtain u v where u: "x = Fin u" "0 \<le> u" "u \<le> a" and v: "y = Fin v" "0 \<le> v" "v \<le> b"
    using assms by (auto simp add: between_zero_iff)
  have "between_zero (a + b) (round_double (u + v))"
    using u v assms(3) by (intro round_double_between) simp_all
  then show ?thesis by (simp add: u v)
qed

lemma sq_dist_between:
  assumes "magnitude_le n (r ! (3 * i))" "magnitude_le n (r ! (3 * i + 1))"
    "magnitude_le n (r ! (3 * i + 2))"
    "magnitude_le n (f ! (3 * i))" "magnitude_le n (f ! (3 * i + 1))"
    "magnitude_le n (f ! (3 * i + 2))" "2 * n + 4 \<le> 1023"
  shows "between_zero (2 ^ (2 * n + 4)) (sq_dist r f i)"
proof -
  let ?m = "2 * Suc n"
  have n: "n < 1023" "2 * Suc n \<le> 1023" "?m + 1 \<le> 1023" "?m + 2 \<le> 1023" using assms(7) by simp_all
  have s0: "between_zero (2 ^ ?m) (SQUARE (dsub (r ! (3 * i)) (f ! (3 * i))))"
    by (intro SQUARE_between dsub_magnitude assms n)
  have s1: "between_zero (2 ^ ?m) (SQUARE (dsub (r ! (3 * i + 1)) (f ! (3 * i + 1))))"
    by (intro SQUARE_between dsub_magnitude assms n)
  have s2: "between_zero (2 ^ ?m) (SQUARE (dsub (r ! (3 * i + 2)) (f ! (3 * i + 2))))"
    by (intro SQUARE_between dsub_magnitude assms n)
  have e1: "(2::real) ^ ?m + 2 ^ ?m = 2 ^ (?m + 1)" by simp
  have e2: "(2::real) ^ (?m + 1) + 2 ^ (?m + 1) = 2 ^ (?m + 2)" by simp
  have "between_zero (2 ^ ?m + 2 ^ ?m)
          (dadd (SQUARE (dsub (r ! (3 * i)) (f ! (3 * i))))
                (SQUARE (dsub (r ! (3 * i + 1)) (f ! (3 * i + 1)))))"
    using s0 s1 by (rule dadd_between) (simp only: e1 representable_pow2 [OF n(3)])
  then have s01: "between_zero (2 ^ (?m + 1))
          (dadd (SQUARE (dsub (r ! (3 * i)) (f ! (3 * i))))
                (SQUARE (dsub (r ! (3 * i + 1)) (f ! (3 * i + 1)))))"
    by (simp only: e1)
  have "between_zero (2 ^ (?m + 1)) (SQUARE (dsub (r ! (3 * i + 2)) (f ! (3 * i + 2))))"
    using s2 by (rule between_zero_mono) simp
  with s01 have "between_zero (2 ^ (?m + 1) + 2 ^ (?m + 1)) (sq_dist r f i)"
    unfolding sq_dist_def by (rule dadd_between) (simp only: e2 representable_pow2 [OF n(4)])
  then have "between_zero (2 ^ (?m + 2)) (sq_dist r f i)" by (simp only: e2)
  moreover have "?m + 2 = 2 * n + 4" by simp
  ultimately show ?thesis by (simp only:)
qed

lemma fold_dadd_between:
  assumes "\<forall>i \<in> set js. between_zero D (g i)" "between_zero (real k * D) s"
    "\<forall>n \<le> k + length js. representable (real n * D)"
  shows "between_zero (real (k + length js) * D) (fold (\<lambda>i s. dadd s (g i)) js s)"
  using assms
proof (induction js arbitrary: k s)
  case Nil
  then show ?case by simp
next
  case (Cons j js)
  have e: "real k * D + D = real (Suc k) * D" by (simp add: algebra_simps)
  have "representable (real (Suc k) * D)"
    using Cons.prems(3) [rule_format, of "Suc k"] by simp
  then have "between_zero (real k * D + D) (dadd s (g j))"
    using Cons.prems(1,2) by (intro dadd_between) (simp_all add: e)
  then have "between_zero (real (Suc k) * D) (dadd s (g j))" by (simp only: e)
  moreover have "\<forall>i \<in> set js. between_zero D (g i)" using Cons.prems(1) by simp
  moreover have "\<forall>n \<le> Suc k + length js. representable (real n * D)" using Cons.prems(3) by simp
  ultimately have "between_zero (real (Suc k + length js) * D)
      (fold (\<lambda>i s. dadd s (g i)) js (dadd s (g j)))"
    by (intro Cons.IH)
  then show ?case by simp
qed

lemma ddiv_between:
  assumes "between_zero (real N * D) s" "0 < N" "representable D"
  shows "between_zero D (ddiv s (of_unsigned N))"
proof -
  obtain x where x: "s = Fin x" "0 \<le> x" "x \<le> real N * D"
    using assms(1) by (auto simp add: between_zero_iff)
  have "x / real N \<le> D" using x(3) assms(2) by (simp add: field_simps)
  moreover have "0 \<le> x / real N" using x(2) by simp
  ultimately have "between_zero D (round_double (x / real N))"
    using assms(3) by (intro round_double_between)
  then show ?thesis using assms(2) by (simp add: x of_unsigned_def)
qed

lemma dsqrt_between:
  assumes "between_zero (2 ^ (2 * k)) s" "k \<le> 1023"
  shows "between_zero (2 ^ k) (dsqrt s)"
proof -
  obtain x where x: "s = Fin x" "0 \<le> x" "x \<le> 2 ^ (2 * k)"
    using assms(1) by (auto simp add: between_zero_iff)
  have "sqrt x \<le> sqrt ((2 ^ k)\<^sup>2)" using x(3) by (simp add: power_mult [symmetric] mult.commute)
  then have "sqrt x \<le> 2 ^ k" by simp
  then have "between_zero (2 ^ k) (round_double (sqrt x))"
    using x(2) assms(2) by (intro round_double_between representable_pow2) simp_all
  then show ?thesis using x by simp
qed

lemma calc_rms_between:
  assumes r: "list_all (magnitude_le n) r" "length r = 3 * N"
    and f: "list_all (magnitude_le n) f" "length f = 3 * N"
    and n: "n \<le> 480" and N: "N < 2 ^ 32"
  shows "between_zero (2 ^ (n + 2)) (calc_rms r f N)"
proof (cases "N = 0")
  case True
  then show ?thesis by (simp add: calc_rms_def between_zero_def)
next
  case False
  let ?D = "(2::real) ^ (2 * n + 4)"
  have sq: "between_zero ?D (sq_dist r f i)" if "i < N" for i
  proof (rule sq_dist_between)
    show "2 * n + 4 \<le> 1023" using n by simp
    show "magnitude_le n (r ! (3 * i))" "magnitude_le n (r ! (3 * i + 1))"
      "magnitude_le n (r ! (3 * i + 2))"
      using r that by (simp_all add: list_all_length)
    show "magnitude_le n (f ! (3 * i))" "magnitude_le n (f ! (3 * i + 1))"
      "magnitude_le n (f ! (3 * i + 2))"
      using f that by (simp_all add: list_all_length)
  qed
  have rep: "representable (real m * ?D)" if "m \<le> N" for m
  proof (rule representable_scaled)
    have "m < 2 ^ 32" using that N by simp
    also have "(2::nat) ^ 32 < 2 ^ 53" by simp
    finally show "m < 2 ^ 53" .
    show "2 * n + 4 \<le> 971" using n by simp
  qed
  have a1: "\<forall>i \<in> set [0..<N]. between_zero ?D (sq_dist r f i)" using sq by simp
  have a2: "between_zero (real 0 * ?D) (Fin 0)" by (simp add: between_zero_def)
  have a3: "\<forall>m \<le> 0 + length [0..<N]. representable (real m * ?D)" using rep by simp
  have "between_zero (real (0 + length [0..<N]) * ?D)
      (fold (\<lambda>i d2. dadd d2 (sq_dist r f i)) [0..<N] (Fin 0))"
    by (rule fold_dadd_between [OF a1 a2 a3])
  then have "between_zero (real N * ?D) (fold (\<lambda>i d2. dadd d2 (sq_dist r f i)) [0..<N] (Fin 0))"
    by simp
  then have "between_zero ?D
      (ddiv (fold (\<lambda>i d2. dadd d2 (sq_dist r f i)) [0..<N] (Fin 0)) (of_unsigned N))"
    using False rep [of 1] by (intro ddiv_between) simp_all
  moreover have "2 * n + 4 = 2 * (n + 2)" by simp
  ultimately have "between_zero (2 ^ (2 * (n + 2)))
      (ddiv (fold (\<lambda>i d2. dadd d2 (sq_dist r f i)) [0..<N] (Fin 0)) (of_unsigned N))"
    by (simp only:)
  then have "between_zero (2 ^ (n + 2))
      (dsqrt (ddiv (fold (\<lambda>i d2. dadd d2 (sq_dist r f i)) [0..<N] (Fin 0)) (of_unsigned N)))"
    using n by (intro dsqrt_between) simp_all
  then show ?thesis using False by (simp add: calc_rms_def)
qed

lemma coords_magnitude:
  assumes "bounded_coordinates n mol" "\<forall>p \<in> set mp. g p < NumAtoms mol"
  shows "list_all (magnitude_le n) (concat (map (\<lambda>p. GetVector (atoms mol ! g p)) mp))"
proof -
  have atom: "magnitude_le n (Fin (vec_x (atoms mol ! i))) \<and>
      magnitude_le n (Fin (vec_y (atoms mol ! i))) \<and>
      magnitude_le n (Fin (vec_z (atoms mol ! i)))" if "i < NumAtoms mol" for i
    using assms(1) that
    by (simp add: bounded_coordinates_def list_all_length NumAtoms_def magnitude_le_def)
  show ?thesis
    using assms(2) by (induction mp) (simp_all add: GetVector_def atom)
qed

lemma mapping_rmsd_bounded:
  assumes "bounded_coordinates n r" "bounded_coordinates n t" "in_range r t mp"
    "n \<le> 480" "length mp < 2 ^ 32"
  shows "\<exists>d\<ge>0. mapping_rmsd q r t False mp = Inr (Fin d)"
proof -
  have ir: "\<forall>p \<in> set mp. fst p < NumAtoms r" "\<forall>p \<in> set mp. snd p < NumAtoms t"
    using assms(3) by (simp_all add: in_range_def list_all_iff)
  have "between_zero (2 ^ (n + 2))
      (calc_rms (concat (map (\<lambda>p. GetVector (atoms r ! fst p)) mp))
                (concat (map (\<lambda>p. GetVector (atoms t ! snd p)) mp)) (length mp))"
    by (rule calc_rms_between)
       (rule coords_magnitude coords_length assms ir)+
  then show ?thesis
    unfolding mapping_rmsd_raw [OF assms(3)] by (auto simp add: between_zero_iff)
qed

section \<open>Infinite coordinates\<close>










section \<open>The functor after \<^verbatim>\<open>MapGeneric\<close>\<close>

lemma run_functor_Inr:
  assumes "run_functor q M t mn = Inr f'"
  shows "ref f' = matcher_ref M" "test f' = t" "minimize f' = mn"
    "bestRMSD f' = HUGE_VAL \<or>
       (\<exists>mp \<in> set (mapper M t). mapping_rmsd q (matcher_ref M) t mn mp = Inr (bestRMSD f'))"
    "\<forall>mp \<in> set (mapper M t). \<exists>d. mapping_rmsd q (matcher_ref M) t mn mp = Inr d \<and>
         \<not> dless d (bestRMSD f')"
  using MapGeneric_call_Inr[OF assms[unfolded run_functor_def]] by simp_all

lemma run_functor_below:
  assumes "run_functor q M t mn = Inr f'"
  shows "bestRMSD f' = HUGE_VAL \<or> dless (bestRMSD f') HUGE_VAL"
  using MapGeneric_call_Inr[OF assms[unfolded run_functor_def]] by simp

lemma run_functor_total:
  assumes "\<forall>mp \<in> set (mapper M t). in_range (matcher_ref M) t mp"
  shows "\<exists>f'. run_functor q M t mn = Inr f'"
proof -
  have "\<forall>mp \<in> set (mapper M t). \<exists>d. mapping_rmsd q (matcher_ref M) t mn mp = Inr d"
    using assms by (auto simp: mapping_rmsd_def fill_coords_in_range Let_def split: prod.splits)
  then show ?thesis
    unfolding run_functor_def by (intro MapGeneric_call_total) simp
qed

lemma run_functor_fails:
  assumes "\<exists>mp \<in> set (mapper M t). \<not> in_range (matcher_ref M) t mp"
  shows "\<exists>e. run_functor q M t mn = Inl e"
proof -
  have "\<exists>mp \<in> set (mapper M t). \<exists>e. mapping_rmsd q (matcher_ref M) t mn mp = Inl e"
    using assms mapping_rmsd_not_in_range by blast
  then show ?thesis
    unfolding run_functor_def by (intro MapGeneric_call_fails) simp
qed

lemma computeRMSD_Inr:
  "computeRMSD q M t mn = Inr best \<longleftrightarrow> (\<exists>f'. run_functor q M t mn = Inr f' \<and> bestRMSD f' = best)"
  by (auto simp: computeRMSD_def getRMSD_def split: sum.splits)


lemma computeRMSD_no_mapping:
  "mapper M t = [] \<Longrightarrow> computeRMSD q M t mn = Inr HUGE_VAL"
  by (simp add: computeRMSD_def run_functor_def getRMSD_def)

lemma computeRMSD_Min:
  assumes "mapper M t \<noteq> []"
    "\<forall>mp \<in> set (mapper M t). mapping_rmsd q (matcher_ref M) t mn mp = Inr (Fin (g mp))"
  shows "computeRMSD q M t mn = Inr (Fin (Min (g ` set (mapper M t))))"
proof -
  from assms(2) have "\<forall>mp \<in> set (mapper M t). \<exists>d. mapping_rmsd q (ref (new_MapRMSDFunctor (matcher_ref M) t mn))
        (test (new_MapRMSDFunctor (matcher_ref M) t mn)) (minimize (new_MapRMSDFunctor (matcher_ref M) t mn)) mp = Inr d"
    by simp
  from MapGeneric_call_total[OF this] obtain f' where f': "run_functor q M t mn = Inr f'"
    unfolding run_functor_def by blast
  note r = run_functor_Inr[OF f']
  from assms(1) obtain mp0 where mp0: "mp0 \<in> set (mapper M t)" by (cases "mapper M t") auto
  from r(5) assms(2) have lb: "\<forall>mp \<in> set (mapper M t). \<not> dless (Fin (g mp)) (bestRMSD f')"
    by fastforce
  with mp0 have "bestRMSD f' \<noteq> HUGE_VAL"
    by (auto simp: HUGE_VAL_def)
  with r(4) assms(2) obtain mp1 where mp1: "mp1 \<in> set (mapper M t)" "bestRMSD f' = Fin (g mp1)"
    by fastforce
  from lb mp1 have "\<forall>mp \<in> set (mapper M t). g mp1 \<le> g mp"
    by (simp add: not_less)
  with mp1(1) have "Min (g ` set (mapper M t)) = g mp1"
    by (intro Min_eqI) auto
  with f' mp1(2) show ?thesis
    by (simp add: computeRMSD_def getRMSD_def)
qed

lemma computeRMSD_state_fst:
  "computeRMSD q M t mn = (case computeRMSD_state q M t mn of Inl e \<Rightarrow> Inl e | Inr s \<Rightarrow> Inr (fst s))"
  by (simp add: computeRMSD_def computeRMSD_state_def split: sum.splits)

lemma computeRMSD_range:
  assumes "computeRMSD q M t mn = Inr best"
  shows "best = HUGE_VAL \<or> (\<exists>d\<ge>0. best = Fin d)"
proof -
  obtain f' where f': "run_functor q M t mn = Inr f'" and b: "bestRMSD f' = best"
    using assms unfolding computeRMSD_Inr by blast
  show ?thesis
  proof (cases "best = HUGE_VAL")
    case True
    then show ?thesis by simp
  next
    case False
    then have lt: "dless best HUGE_VAL" using run_functor_below [OF f'] b by simp
    obtain mp where "mapping_rmsd q (matcher_ref M) t mn mp = Inr best"
      using run_functor_Inr(4) [OF f'] False b by auto
    then have "not_negative best" by (rule mapping_rmsd_not_negative)
    then show ?thesis using lt by (cases best) (simp_all add: not_negative_simps HUGE_VAL_def)
  qed
qed

lemma computeRMSD_finite_iff:
  assumes "computeRMSD q M t mn = Inr best"
  shows "is_finite best \<longleftrightarrow>
     (\<exists>mp \<in> set (mapper M t). \<exists>d. mapping_rmsd q (matcher_ref M) t mn mp = Inr (Fin d))"
proof
  obtain f' where f': "run_functor q M t mn = Inr f'" and b: "bestRMSD f' = best"
    using assms unfolding computeRMSD_Inr by blast
  {
    assume "is_finite best"
    then obtain d where d: "best = Fin d" by (auto simp add: is_finite_iff)
    then have "best \<noteq> HUGE_VAL" by (simp add: HUGE_VAL_def)
    then show "\<exists>mp \<in> set (mapper M t). \<exists>d. mapping_rmsd q (matcher_ref M) t mn mp = Inr (Fin d)"
      using run_functor_Inr(4) [OF f'] b d by auto
  next
    assume "\<exists>mp \<in> set (mapper M t). \<exists>d. mapping_rmsd q (matcher_ref M) t mn mp = Inr (Fin d)"
    then obtain mp d where mp: "mp \<in> set (mapper M t)"
      "mapping_rmsd q (matcher_ref M) t mn mp = Inr (Fin d)" by blast
    then have "\<not> dless (Fin d) best" using run_functor_Inr(5) [OF f'] b by fastforce
    then have "best \<noteq> HUGE_VAL" by (auto simp add: HUGE_VAL_def)
    then show "is_finite best"
      using computeRMSD_range [OF assms] by (auto simp add: is_finite_def)
  }
qed

lemma computeRMSD_bounded:
  assumes "bounded_coordinates 480 (matcher_ref M)" "bounded_coordinates 480 t"
    "mapper M t \<noteq> []"
    "\<forall>mp \<in> set (mapper M t). in_range (matcher_ref M) t mp \<and> length mp < 2 ^ 32"
  shows "\<exists>d\<ge>0. computeRMSD q M t False = Inr (Fin d)"
proof -
  have "\<forall>mp \<in> set (mapper M t). in_range (matcher_ref M) t mp" using assms(4) by simp
  then obtain f' where f': "run_functor q M t False = Inr f'"
    using run_functor_total by blast
  then have c: "computeRMSD q M t False = Inr (bestRMSD f')"
    by (simp add: computeRMSD_def getRMSD_def)
  obtain mp where mp: "mp \<in> set (mapper M t)" using assms(3) by (cases "mapper M t") auto
  then have "\<exists>d\<ge>0. mapping_rmsd q (matcher_ref M) t False mp = Inr (Fin d)"
    using assms by (intro mapping_rmsd_bounded [where n = 480]) simp_all
  then have "is_finite (bestRMSD f')"
    using computeRMSD_finite_iff [OF c] mp by blast
  then show ?thesis using computeRMSD_range [OF c] c by (auto simp add: is_finite_def HUGE_VAL_def)
qed


section \<open>The correspondence search\<close>

lemma interleave_head: "x # ys \<in> set (interleave x ys)"
  by (cases ys) simp_all


lemma search_sound: "mp \<in> set (isomorphism_search r t) \<Longrightarrow> is_isomorphism r t mp"
  by (simp add: isomorphism_search_def)

text \<open>
  The search finds every bijection that preserves adjacency and element labels, and nothing
  else.
\<close>

lemma interleave_insert: "ys1 @ x # ys2 \<in> set (interleave x (ys1 @ ys2))"
proof (induction ys1)
  case Nil
  then show ?case by (simp add: interleave_head)
next
  case (Cons y ys1)
  then show ?case by simp
qed

lemma permutations_of_complete:
  "distinct xs \<Longrightarrow> distinct ys \<Longrightarrow> set ys = set xs \<Longrightarrow> ys \<in> set (permutations_of xs)"
proof (induction xs arbitrary: ys)
  case Nil
  then show ?case by simp
next
  case (Cons x xs)
  from Cons.prems(3) have "x \<in> set ys" by simp
  then obtain ys1 ys2 where ys: "ys = ys1 @ x # ys2" by (auto dest: split_list)
  with Cons.prems have "distinct (ys1 @ ys2)" "set (ys1 @ ys2) = set xs" by auto
  with Cons.IH[of "ys1 @ ys2"] Cons.prems(1) have "ys1 @ ys2 \<in> set (permutations_of xs)" by simp
  with interleave_insert[of ys1 x ys2] show ?case unfolding ys by auto
qed

lemma search_complete:
  assumes "is_isomorphism r t mp"
  shows "mp \<in> set (isomorphism_search r t)"
proof -
  from assms have n: "NumAtoms t = NumAtoms r" and f: "map fst mp = [0..<NumAtoms r]"
    and d: "distinct (map snd mp)" and b: "list_all (\<lambda>j. j < NumAtoms t) (map snd mp)"
    unfolding is_isomorphism_def by blast+
  from f have l: "length mp = NumAtoms r" by (metis length_map length_upt diff_zero)
  have sub: "set (map snd mp) \<subseteq> {0..<NumAtoms t}"
    using b by (auto simp: list_all_iff)
  have "card (set (map snd mp)) = length (map snd mp)"
    using d by (rule distinct_card)
  then have "card (set (map snd mp)) = NumAtoms t"
    using l n by simp
  with sub have "set (map snd mp) = set [0..<NumAtoms t]"
    by (simp add: card_subset_eq)
  then have "map snd mp \<in> set (permutations_of [0..<NumAtoms t])"
    using d by (intro permutations_of_complete) simp_all
  moreover have "zip [0..<NumAtoms r] (map snd mp) = mp"
    unfolding f[symmetric] by (rule zip_map_fst_snd)
  ultimately have "mp \<in> set (map (zip [0..<NumAtoms r]) (permutations_of [0..<NumAtoms t]))"
    by force
  with assms show ?thesis by (simp add: isomorphism_search_def)
qed

lemma search_exact: "set (isomorphism_search r t) = {mp. is_isomorphism r t mp}"
  using search_sound search_complete by blast

lemma count_mismatch_no_isomorphism:
  "NumAtoms t \<noteq> NumAtoms r \<Longrightarrow> \<not> is_isomorphism r t mp"
  by (simp add: is_isomorphism_def)






section \<open>The examples, evaluated\<close>

lemma upt_2: "[0..<2] = [0, Suc 0]"
  by (simp add: upt_rec)

lemma upt_6: "[0..<6] = [0, 1, 2, 3, 4, 5]"
  by (simp add: upt_rec)

lemma search_pair: "isomorphism_search pair_ref pair_test = [[(0, 0), (1, 1)], [(0, 1), (1, 0)]]"
  by code_simp

lemma search_none: "isomorphism_search no_atoms no_atoms = [[]]"
  by code_simp

lemma fill_pair_id:
  "fill_coords pair_ref pair_test [(0, 0), (1, 1)] =
     Inr ([Fin 0, Fin 0, Fin 0, Fin 1, Fin 0, Fin 0], [Fin 0, Fin 0, Fin 1, Fin 1, Fin 0, Fin 1])"
  by (simp add: GetAtom_def NumAtoms_def pair_ref_def pair_test_def molecule_def
      carbon_def GetVector_def)

lemma fill_pair_swap:
  "fill_coords pair_ref pair_test [(0, 1), (1, 0)] =
     Inr ([Fin 0, Fin 0, Fin 0, Fin 1, Fin 0, Fin 0], [Fin 1, Fin 0, Fin 1, Fin 0, Fin 0, Fin 1])"
  by (simp add: GetAtom_def NumAtoms_def pair_ref_def pair_test_def molecule_def
      carbon_def GetVector_def)

lemma rmsd_pair_id: "mapping_rmsd q pair_ref pair_test False [(0, 0), (1, 1)] = Inr (Fin 1)"
  by (simp add: mapping_rmsd_def GetAtom_def NumAtoms_def pair_ref_def pair_test_def molecule_def
      carbon_def GetVector_def calc_rms_def sq_dist_def SQUARE_def dsub_def of_unsigned_def upt_2
      round_double_zero round_double_small)

lemma rmsd_pair_swap:
  "mapping_rmsd q pair_ref pair_test False [(0, 1), (1, 0)] = Inr (Fin (6369051672525773 / 2 ^ 52))"
  by (simp add: mapping_rmsd_def GetAtom_def NumAtoms_def pair_ref_def pair_test_def molecule_def
      carbon_def GetVector_def calc_rms_def sq_dist_def SQUARE_def dsub_def of_unsigned_def upt_2
      round_double_zero round_double_small round_double_sqrt_2)

lemma compute_pair:
  "computeRMSD q (new_Matcher isomorphism_search pair_ref) pair_test False = Inr (Fin 1)"
  by (simp add: computeRMSD_def run_functor_def new_Matcher_def search_pair call_cases
      new_MapRMSDFunctor_def HUGE_VAL_def rmsd_pair_id rmsd_pair_swap getRMSD_def
      del: One_nat_def)

lemma fit_pair_id:
  "fit_coords identity_fit [Fin 0, Fin 0, Fin 0, Fin 1, Fin 0, Fin 0]
      [Fin 0, Fin 0, Fin 1, Fin 1, Fin 0, Fin 1] 2 =
     ([Fin (- (1 / 2)), Fin 0, Fin 0, Fin (1 / 2), Fin 0, Fin 0],
      [Fin (- (1 / 2)), Fin 0, Fin 0, Fin (1 / 2), Fin 0, Fin 0])"
  by (simp add: fit_coords_def centroid_def column_sum_def subtract_centroid_def rotate_coords_def
      identity_fit_def of_unsigned_def dsub_def upt_2 upt_6 Let_def
      round_double_zero round_double_small)

lemma fit_pair_swap:
  "fit_coords identity_fit [Fin 0, Fin 0, Fin 0, Fin 1, Fin 0, Fin 0]
      [Fin 1, Fin 0, Fin 1, Fin 0, Fin 0, Fin 1] 2 =
     ([Fin (- (1 / 2)), Fin 0, Fin 0, Fin (1 / 2), Fin 0, Fin 0],
      [Fin (1 / 2), Fin 0, Fin 0, Fin (- (1 / 2)), Fin 0, Fin 0])"
  by (simp add: fit_coords_def centroid_def column_sum_def subtract_centroid_def rotate_coords_def
      identity_fit_def of_unsigned_def dsub_def upt_2 upt_6 Let_def
      round_double_zero round_double_small)

lemma rmsd_pair_id_min:
  "mapping_rmsd identity_fit pair_ref pair_test True [(0, 0), (1, 1)] = Inr (Fin 0)"
proof -
  have l: "length [(0::nat, 0::nat), (1, 1)] = 2" by simp
  show ?thesis
    unfolding mapping_rmsd_def l fill_pair_id
    by (simp add: fit_pair_id calc_rms_def sq_dist_def SQUARE_def dsub_def of_unsigned_def upt_2
        round_double_zero round_double_small)
qed

lemma rmsd_pair_swap_min:
  "mapping_rmsd identity_fit pair_ref pair_test True [(0, 1), (1, 0)] = Inr (Fin 1)"
proof -
  have l: "length [(0::nat, 1::nat), (1, 0)] = 2" by simp
  show ?thesis
    unfolding mapping_rmsd_def l fill_pair_swap
    by (simp add: fit_pair_swap calc_rms_def sq_dist_def SQUARE_def dsub_def of_unsigned_def upt_2
        round_double_zero round_double_small)
qed

lemma compute_pair_min:
  "computeRMSD identity_fit (new_Matcher isomorphism_search pair_ref) pair_test True = Inr (Fin 0)"
  by (simp add: computeRMSD_def run_functor_def new_Matcher_def search_pair call_cases
      new_MapRMSDFunctor_def HUGE_VAL_def rmsd_pair_id_min rmsd_pair_swap_min getRMSD_def
      del: One_nat_def)

text \<open>
  The lone atom at \<open>x = 2\<^sup>7\<^sup>0\<^sup>0\<close> against the lone atom at the origin: the difference is
  exact, its square \<open>2\<^sup>1\<^sup>4\<^sup>0\<^sup>0\<close> is rounded to \<open>+\<infinity>\<close>, and so is the RMSD.
\<close>

lemma search_far_atom: "isomorphism_search lone_atom far_atom = [[(0, 0)]]"
  by code_simp

lemma round_double_square_far: "round_double (2 ^ 700 * 2 ^ 700) = PInf"
  by (rule round_double_overflow) simp

lemmas round_double_far =
  round_double_minus_pow2 [of 700, simplified] round_double_square_far [simplified]

lemma rmsd_far_atom: "mapping_rmsd q lone_atom far_atom False [(0, 0)] = Inr PInf"
  by (simp add: mapping_rmsd_def GetAtom_def NumAtoms_def lone_atom_def far_atom_def molecule_def
      carbon_def GetVector_def calc_rms_def sq_dist_def SQUARE_def dsub_def of_unsigned_def
      round_double_zero round_double_far inf_of_sign_def)

lemma compute_far_atom:
  "computeRMSD q (new_Matcher isomorphism_search lone_atom) far_atom False = Inr HUGE_VAL"
  by (simp add: computeRMSD_def run_functor_def new_Matcher_def search_far_atom call_cases
      new_MapRMSDFunctor_def HUGE_VAL_def rmsd_far_atom getRMSD_def
      del: One_nat_def)













section \<open>No correspondence\<close>

text \<open>
  C1. When no bijection between the atoms of the reference and of the test preserves
  adjacency and element labels, and in particular when the two atom counts differ, a
  mapper that hands over such bijections only hands over nothing: it calls no visitor
  (whatever the visitor and its state, the state comes back as it went in), and
  \<^verbatim>\<open>computeRMSD\<close> returns \<^verbatim>\<open>HUGE_VAL\<close>, the value the constructor gave
  \<^verbatim>\<open>bestRMSD\<close>, and fails no assertion. So it is for the search as the spec describes it.
\<close>

theorem no_isomorphism_gives_HUGE_VAL:
  assumes "NumAtoms t \<noteq> NumAtoms r \<or> (\<forall>mp. \<not> is_isomorphism r t mp)"
  shows "(matcher_ref M = r \<and> (\<forall>mp \<in> set (mapper M t). is_isomorphism r t mp) \<longrightarrow>
           mapper M t = [] \<and>
           MapGeneric visit s (mapper M t) = Inr s \<and>
           computeRMSD qtrfit M t mn = Inr HUGE_VAL) \<and>
         isomorphism_search r t = [] \<and>
         computeRMSD qtrfit (new_Matcher isomorphism_search r) t mn = Inr HUGE_VAL"
proof -
  from assms have none: "\<forall>mp. \<not> is_isomorphism r t mp"
    using count_mismatch_no_isomorphism by blast
  have "mapper M t = [] \<and> MapGeneric visit s (mapper M t) = Inr s \<and>
        computeRMSD qtrfit M t mn = Inr HUGE_VAL"
    if "matcher_ref M = r \<and> (\<forall>mp \<in> set (mapper M t). is_isomorphism r t mp)"
  proof -
    from that none have e: "mapper M t = []" by (cases "mapper M t") auto
    from computeRMSD_no_mapping[OF e] e show ?thesis by simp
  qed
  moreover from none have e: "isomorphism_search r t = []"
    by (simp add: isomorphism_search_def filter_empty_conv)
  moreover have "computeRMSD qtrfit (new_Matcher isomorphism_search r) t mn = Inr HUGE_VAL"
    by (rule computeRMSD_no_mapping) (simp add: new_Matcher_def e)
  ultimately show ?thesis by blast
qed

text \<open>Two atoms against one: the counts differ, in either mode the answer is \<^verbatim>\<open>HUGE_VAL\<close>.\<close>

theorem no_isomorphism_gives_HUGE_VAL_witness:
  "NumAtoms lone_atom \<noteq> NumAtoms pair_ref \<and>
   isomorphism_search pair_ref lone_atom = [] \<and>
   MapGeneric (MapRMSDFunctor_call identity_fit) (new_MapRMSDFunctor pair_ref lone_atom True)
     (isomorphism_search pair_ref lone_atom) = Inr (new_MapRMSDFunctor pair_ref lone_atom True) \<and>
   computeRMSD identity_fit (new_Matcher isomorphism_search pair_ref) lone_atom True = Inr HUGE_VAL \<and>
   computeRMSD identity_fit (new_Matcher isomorphism_search pair_ref) lone_atom False = Inr HUGE_VAL"
proof -
  let ?M = "new_Matcher isomorphism_search pair_ref"
  have h: "NumAtoms lone_atom \<noteq> NumAtoms pair_ref"
    by (simp add: NumAtoms_def lone_atom_def pair_ref_def molecule_def)
  then have h': "NumAtoms lone_atom \<noteq> NumAtoms pair_ref \<or>
      (\<forall>mp. \<not> is_isomorphism pair_ref lone_atom mp)"
    by simp
  have m: "matcher_ref ?M = pair_ref \<and>
      (\<forall>mp \<in> set (mapper ?M lone_atom). is_isomorphism pair_ref lone_atom mp)"
    using search_sound by (simp add: new_Matcher_def)
  have mm: "mapper ?M lone_atom = isomorphism_search pair_ref lone_atom"
    by (simp add: new_Matcher_def)
  show ?thesis
    using h m
      no_isomorphism_gives_HUGE_VAL[OF h', of ?M "MapRMSDFunctor_call identity_fit"
        "new_MapRMSDFunctor pair_ref lone_atom True" identity_fit True]
      no_isomorphism_gives_HUGE_VAL[OF h', of ?M "MapRMSDFunctor_call identity_fit"
        "new_MapRMSDFunctor pair_ref lone_atom True" identity_fit False]
    unfolding mm by blast
qed

section \<open>The minimum over the mappings\<close>

text \<open>
  C2. \<^verbatim>\<open>operator()\<close> never asks the mapper to stop, in either mode and whatever the
  best RMSD so far. \<^verbatim>\<open>computeRMSD\<close> returns a value exactly when every mapping found is
  in range; the value is then \<^verbatim>\<open>HUGE_VAL\<close> or the RMSD of a mapping found, and no
  mapping found has a smaller RMSD: it is the minimum over all the mappings the mapper
  hands over, \<^verbatim>\<open>HUGE_VAL\<close> when there is none, and \<open>Min\<close> of the finite per-mapping
  values when there is one and the values are finite.
\<close>

theorem computeRMSD_minimum:
  "(\<forall>f mp stop f'. MapRMSDFunctor_call qtrfit f mp = Inr (stop, f') \<longrightarrow> \<not> stop) \<and>
   ((\<exists>best. computeRMSD qtrfit M t mn = Inr best) \<longleftrightarrow>
      (\<forall>mp \<in> set (mapper M t). in_range (matcher_ref M) t mp)) \<and>
   (\<forall>best. computeRMSD qtrfit M t mn = Inr best \<longrightarrow>
      (best = HUGE_VAL \<or>
         (\<exists>mp \<in> set (mapper M t). mapping_rmsd qtrfit (matcher_ref M) t mn mp = Inr best)) \<and>
      (\<forall>mp \<in> set (mapper M t).
         \<exists>d. mapping_rmsd qtrfit (matcher_ref M) t mn mp = Inr d \<and> \<not> dless d best)) \<and>
   (mapper M t = [] \<longrightarrow> computeRMSD qtrfit M t mn = Inr HUGE_VAL) \<and>
   (mapper M t \<noteq> [] \<and>
    (\<forall>mp \<in> set (mapper M t). mapping_rmsd qtrfit (matcher_ref M) t mn mp = Inr (Fin (g mp))) \<longrightarrow>
      computeRMSD qtrfit M t mn = Inr (Fin (Min (g ` set (mapper M t)))))"
proof (intro conjI)
  show "\<forall>f mp stop f'. MapRMSDFunctor_call qtrfit f mp = Inr (stop, f') \<longrightarrow> \<not> stop"
    using call_Inr(1) by blast
  show "(\<exists>best. computeRMSD qtrfit M t mn = Inr best) \<longleftrightarrow>
      (\<forall>mp \<in> set (mapper M t). in_range (matcher_ref M) t mp)"
  proof
    assume "\<exists>best. computeRMSD qtrfit M t mn = Inr best"
    then obtain f' where "run_functor qtrfit M t mn = Inr f'"
      unfolding computeRMSD_Inr by blast
    then show "\<forall>mp \<in> set (mapper M t). in_range (matcher_ref M) t mp"
      using run_functor_fails[of M t qtrfit mn] by auto
  next
    assume "\<forall>mp \<in> set (mapper M t). in_range (matcher_ref M) t mp"
    from run_functor_total[OF this] show "\<exists>best. computeRMSD qtrfit M t mn = Inr best"
      unfolding computeRMSD_Inr by blast
  qed
  show "\<forall>best. computeRMSD qtrfit M t mn = Inr best \<longrightarrow>
      (best = HUGE_VAL \<or>
         (\<exists>mp \<in> set (mapper M t). mapping_rmsd qtrfit (matcher_ref M) t mn mp = Inr best)) \<and>
      (\<forall>mp \<in> set (mapper M t).
         \<exists>d. mapping_rmsd qtrfit (matcher_ref M) t mn mp = Inr d \<and> \<not> dless d best)"
    unfolding computeRMSD_Inr using run_functor_Inr(4,5) by blast
  show "mapper M t = [] \<longrightarrow> computeRMSD qtrfit M t mn = Inr HUGE_VAL"
    by (simp add: computeRMSD_def run_functor_def getRMSD_def)
  show "mapper M t \<noteq> [] \<and>
    (\<forall>mp \<in> set (mapper M t). mapping_rmsd qtrfit (matcher_ref M) t mn mp = Inr (Fin (g mp))) \<longrightarrow>
      computeRMSD qtrfit M t mn = Inr (Fin (Min (g ` set (mapper M t))))"
    using computeRMSD_Min by blast
qed

text \<open>
  The two bonded atoms and their translated copy: the search finds the identity and the
  swap, with RMSD \<open>1\<close> and the double nearest to \<open>\<surd>2\<close>; both are visited and the result
  is their minimum.
\<close>

theorem computeRMSD_minimum_witness:
  "mapper (new_Matcher isomorphism_search pair_ref) pair_test = [[(0, 0), (1, 1)], [(0, 1), (1, 0)]] \<and>
   in_range pair_ref pair_test [(0, 0), (1, 1)] \<and>
   in_range pair_ref pair_test [(0, 1), (1, 0)] \<and>
   mapping_rmsd identity_fit pair_ref pair_test False [(0, 0), (1, 1)] = Inr (Fin 1) \<and>
   mapping_rmsd identity_fit pair_ref pair_test False [(0, 1), (1, 0)] = Inr (Fin (6369051672525773 / 2 ^ 52)) \<and>
   computeRMSD identity_fit (new_Matcher isomorphism_search pair_ref) pair_test False =
     Inr (Fin (Min {1, 6369051672525773 / 2 ^ 52})) \<and>
   Min {1, 6369051672525773 / 2 ^ 52} = (1 :: real)"
proof -
  let ?M = "new_Matcher isomorphism_search pair_ref"
  let ?g = "\<lambda>mp. if mp = [(0 :: nat, 0 :: nat), (1, 1)] then 1 else 6369051672525773 / 2 ^ 52"
  have m: "mapper ?M pair_test = [[(0, 0), (1, 1)], [(0, 1), (1, 0)]]" "matcher_ref ?M = pair_ref"
    by (simp_all add: new_Matcher_def search_pair)
  have ir: "in_range pair_ref pair_test [(0, 0), (1, 1)]" "in_range pair_ref pair_test [(0, 1), (1, 0)]"
    by (simp_all add: in_range_def NumAtoms_def pair_ref_def pair_test_def molecule_def)
  have h: "mapper ?M pair_test \<noteq> [] \<and>
    (\<forall>mp \<in> set (mapper ?M pair_test).
        mapping_rmsd identity_fit (matcher_ref ?M) pair_test False mp = Inr (Fin (?g mp)))"
    unfolding m by (simp add: rmsd_pair_id rmsd_pair_swap del: One_nat_def)
  have "computeRMSD identity_fit ?M pair_test False = Inr (Fin (Min (?g ` set (mapper ?M pair_test))))"
    using computeRMSD_minimum[of identity_fit ?M pair_test False ?g] h by blast
  moreover have "?g ` set (mapper ?M pair_test) = {1, 6369051672525773 / 2 ^ 52}"
    unfolding m by (auto simp del: One_nat_def)
  moreover have "Min {1, 6369051672525773 / 2 ^ 52} = (1 :: real)"
    by simp
  ultimately show ?thesis
    using m ir rmsd_pair_id[of identity_fit] rmsd_pair_swap[of identity_fit] by simp
qed

section \<open>The empty mapping\<close>

text \<open>
  C3, as the claim states it, fails: with \<open>N = 0\<close> the centring block evaluates
  \<^verbatim>\<open>rave[c] /= N\<close> with no test on \<open>N\<close>, and the quotient \<open>0 / 0\<close> is a NaN.
\<close>

theorem centroid_of_no_points_divides_by_zero:
  "fill_coords no_atoms no_atoms [] = Inr ([], []) \<and>
   centroid [] (length ([] :: Mapping)) = [NaN, NaN, NaN] \<and>
   ddiv (column_sum [] 0 0) (of_unsigned 0) = NaN"
  by (simp add: centroid_def column_sum_def of_unsigned_def inf_of_sign_def)

text \<open>
  C3, amended. For the empty mapping no assertion fails and the RMSD is the value of
  \<^verbatim>\<open>calc_rms\<close> on two empty arrays, which is 0, in both modes. With \<^verbatim>\<open>minimize\<close> set
  the three centroid components are the NaN of the unguarded division; no later step
  reads them, since the loops over the points run zero times and leave both arrays empty.
  The call answers \<open>False\<close> and lowers the best RMSD to 0 when it was above 0.
\<close>

theorem empty_mapping_rmsd_is_zero:
  "mapping_rmsd qtrfit r t mn [] = Inr (Fin 0) \<and>
   fill_coords r t [] = Inr ([], []) \<and>
   calc_rms [] [] 0 = Fin 0 \<and>
   centroid [] 0 = [NaN, NaN, NaN] \<and>
   fit_coords qtrfit [] [] 0 = ([], []) \<and>
   MapRMSDFunctor_call qtrfit f [] =
     Inr (False, if dless (Fin 0) (bestRMSD f) then f\<lparr>bestRMSD := Fin 0\<rparr> else f)"
  by (simp add: rmsd_empty fit_empty centroid_empty calc_rms_def MapRMSDFunctor_call_def)

theorem empty_mapping_rmsd_is_zero_witness:
  "mapping_rmsd identity_fit no_atoms no_atoms True [] = Inr (Fin 0) \<and>
   mapping_rmsd identity_fit no_atoms no_atoms False [] = Inr (Fin 0) \<and>
   isomorphism_search no_atoms no_atoms = [[]] \<and>
   computeRMSD identity_fit (new_Matcher isomorphism_search no_atoms) no_atoms True = Inr (Fin 0)"
  using empty_mapping_rmsd_is_zero[of identity_fit no_atoms no_atoms True]
    empty_mapping_rmsd_is_zero[of identity_fit no_atoms no_atoms False]
  by (simp add: search_none computeRMSD_def run_functor_def new_Matcher_def call_cases
      new_MapRMSDFunctor_def HUGE_VAL_def getRMSD_def)

section \<open>A molecule against itself\<close>



section \<open>The two modes compared\<close>




section \<open>Raw coordinates when \<^verbatim>\<open>minimize\<close> is false\<close>

text \<open>
  C8. With \<^verbatim>\<open>minimize\<close> false the RMSD of a mapping is \<^verbatim>\<open>calc_rms\<close> of the coordinates
  of the mapped atoms as they stand in the two molecules: no centroid is subtracted, no
  rotation is applied and \<^verbatim>\<open>qtrfit\<close> has no part in the value. For the two bonded atoms
  at \<open>(0,0,0)\<close> and \<open>(1,0,0)\<close> and their copy translated by \<open>z = 1\<close> the result is
  exactly 1.
\<close>

theorem raw_coordinates_when_not_minimizing:
  "(in_range r t mp \<longrightarrow>
      mapping_rmsd qtrfit r t False mp =
        Inr (calc_rms (concat (map (\<lambda>p. GetVector (atoms r ! fst p)) mp))
                      (concat (map (\<lambda>p. GetVector (atoms t ! snd p)) mp)) (length mp))) \<and>
   computeRMSD qtrfit (new_Matcher isomorphism_search pair_ref) pair_test False = Inr (Fin 1)"
  using mapping_rmsd_raw compute_pair by blast

theorem raw_coordinates_when_not_minimizing_witness:
  "in_range pair_ref pair_test [(0, 0), (1, 1)] \<and>
   calc_rms (concat (map (\<lambda>p. GetVector (atoms pair_ref ! fst p)) [(0, 0), (1, 1)]))
            (concat (map (\<lambda>p. GetVector (atoms pair_test ! snd p)) [(0, 0), (1, 1)]))
            (length [(0 :: nat, 0 :: nat), (1, 1)]) = Fin 1 \<and>
   computeRMSD identity_fit (new_Matcher isomorphism_search pair_ref) pair_test False = Inr (Fin 1)"
proof -
  have h: "in_range pair_ref pair_test [(0, 0), (1, 1)]"
    by (simp add: in_range_def NumAtoms_def pair_ref_def pair_test_def molecule_def)
  show ?thesis
    using h rmsd_pair_id[of identity_fit]
      raw_coordinates_when_not_minimizing[of pair_ref pair_test "[(0, 0), (1, 1)]" identity_fit]
    by auto
qed

section \<open>The molecules are left as they were\<close>

text \<open>
  C9. \<^verbatim>\<open>computeRMSD\<close> modifies neither molecule, in either mode: when it returns, the
  matcher (with its reference molecule) and the test molecule are as they were before the
  call; each call of \<^verbatim>\<open>operator()\<close> leaves both molecules as they were; and the call
  returns whenever every mapping found is in range.
\<close>

theorem computeRMSD_leaves_molecules:
  "(\<forall>d M' t'. computeRMSD_state qtrfit M t mn = Inr (d, M', t') \<longrightarrow> M' = M \<and> t' = t) \<and>
   (\<forall>stop f'. MapRMSDFunctor_call qtrfit f mp = Inr (stop, f') \<longrightarrow>
      ref f' = ref f \<and> test f' = test f) \<and>
   ((\<forall>mp \<in> set (mapper M t). in_range (matcher_ref M) t mp) \<longrightarrow>
      (\<exists>d. computeRMSD_state qtrfit M t mn = Inr (d, M, t)))"
proof (intro conjI allI impI)
  fix d M' t'
  assume "computeRMSD_state qtrfit M t mn = Inr (d, M', t')"
  then obtain f' where f': "run_functor qtrfit M t mn = Inr f'" "M' = M\<lparr>matcher_ref := ref f'\<rparr>"
    "t' = test f'"
    by (auto simp: computeRMSD_state_def split: sum.splits)
  from run_functor_Inr(1,2)[OF f'(1)] f'(2,3) show "M' = M" "t' = t" by simp_all
next
  fix stop f'
  assume "MapRMSDFunctor_call qtrfit f mp = Inr (stop, f')"
  from call_Inr(2,3)[OF this] show "ref f' = ref f" "test f' = test f" .
next
  assume "\<forall>mp \<in> set (mapper M t). in_range (matcher_ref M) t mp"
  from run_functor_total[OF this] obtain f' where f': "run_functor qtrfit M t mn = Inr f'"
    by blast
  from run_functor_Inr(1,2)[OF f'] f' show "\<exists>d. computeRMSD_state qtrfit M t mn = Inr (d, M, t)"
    by (simp add: computeRMSD_state_def)
qed

theorem computeRMSD_leaves_molecules_witness:
  "computeRMSD_state identity_fit (new_Matcher isomorphism_search pair_ref) pair_test True =
     Inr (Fin 0, new_Matcher isomorphism_search pair_ref, pair_test) \<and>
   computeRMSD_state identity_fit (new_Matcher isomorphism_search pair_ref) pair_test False =
     Inr (Fin 1, new_Matcher isomorphism_search pair_ref, pair_test)"
proof -
  let ?M = "new_Matcher isomorphism_search pair_ref"
  have m: "mapper ?M pair_test = [[(0, 0), (1, 1)], [(0, 1), (1, 0)]]" "matcher_ref ?M = pair_ref"
    by (simp_all add: new_Matcher_def search_pair)
  have ir: "\<forall>mp \<in> set (mapper ?M pair_test). in_range (matcher_ref ?M) pair_test mp"
    unfolding m
    by (simp add: in_range_def NumAtoms_def pair_ref_def pair_test_def molecule_def)
  from computeRMSD_leaves_molecules[of identity_fit ?M pair_test True] ir
  obtain d1 where d1: "computeRMSD_state identity_fit ?M pair_test True = Inr (d1, ?M, pair_test)"
    by blast
  from computeRMSD_leaves_molecules[of identity_fit ?M pair_test False] ir
  obtain d2 where d2: "computeRMSD_state identity_fit ?M pair_test False = Inr (d2, ?M, pair_test)"
    by blast
  from d1 compute_pair_min have "d1 = Fin 0" by (simp add: computeRMSD_state_fst)
  moreover from d2 compute_pair[of identity_fit] have "d2 = Fin 1" by (simp add: computeRMSD_state_fst)
  ultimately show ?thesis using d1 d2 by simp
qed

section \<open>The best RMSD never grows and is never negative\<close>

text \<open>
  C10, as the claim states it, fails. The lone atom at the origin against the lone atom at
  \<open>x = 2\<^sup>7\<^sup>0\<^sup>0\<close>, with \<^verbatim>\<open>minimize\<close> false: one mapping of one atom is visited, the
  squared distance overflows, the RMSD of the mapping is \<open>+\<infinity>\<close> and \<^verbatim>\<open>computeRMSD\<close>
  returns \<^verbatim>\<open>HUGE_VAL\<close>, which is not finite.
\<close>

theorem squared_distance_overflows:
  "isomorphism_search lone_atom far_atom = [[(0, 0)]] \<and>
   in_range lone_atom far_atom [(0, 0)] \<and>
   length [(0 :: nat, 0 :: nat)] = 1 \<and>
   representable (2 ^ 700) \<and>
   mapping_rmsd identity_fit lone_atom far_atom False [(0, 0)] = Inr PInf \<and>
   computeRMSD identity_fit (new_Matcher isomorphism_search lone_atom) far_atom False =
     Inr HUGE_VAL \<and>
   \<not> is_finite HUGE_VAL"
proof -
  have "in_range lone_atom far_atom [(0, 0)]"
    by (simp add: in_range_def NumAtoms_def lone_atom_def far_atom_def molecule_def)
  moreover have "representable (2 ^ 700)" by (rule representable_pow2) simp
  moreover have "\<not> is_finite HUGE_VAL" by (simp add: is_finite_def HUGE_VAL_def)
  ultimately show ?thesis
    using search_far_atom rmsd_far_atom [of identity_fit] compute_far_atom [of identity_fit]
    by simp
qed

text \<open>
  C10, amended. Over any run of the mapper, from any state of the functor, the best RMSD
  at the end is the one at the start or a smaller one. What \<^verbatim>\<open>computeRMSD\<close> returns is
  never a NaN and never negative: it is \<^verbatim>\<open>HUGE_VAL\<close> or a finite number that is not
  negative, and it is finite exactly when the RMSD of some mapping found is finite. With
  \<^verbatim>\<open>minimize\<close> false it is finite and not negative whenever at least one mapping is
  found, every mapping found is in range and has fewer than \<open>2\<^sup>3\<^sup>2\<close> pairs, and no
  coordinate of either molecule is above \<open>2\<^sup>4\<^sup>8\<^sup>0\<close> in magnitude.
\<close>

theorem bestRMSD_monotone_never_negative:
  "(\<forall>f'. MapGeneric (MapRMSDFunctor_call qtrfit) f mps = Inr f' \<longrightarrow>
      bestRMSD f' = bestRMSD f \<or> dless (bestRMSD f') (bestRMSD f)) \<and>
   (\<forall>best. computeRMSD qtrfit M t mn = Inr best \<longrightarrow>
      (best = HUGE_VAL \<or> (\<exists>d\<ge>0. best = Fin d)) \<and>
      (is_finite best \<longleftrightarrow>
         (\<exists>mp \<in> set (mapper M t).
            \<exists>d. mapping_rmsd qtrfit (matcher_ref M) t mn mp = Inr (Fin d)))) \<and>
   (bounded_coordinates 480 (matcher_ref M) \<and> bounded_coordinates 480 t \<and>
    mapper M t \<noteq> [] \<and>
    (\<forall>mp \<in> set (mapper M t). in_range (matcher_ref M) t mp \<and> length mp < 2 ^ 32) \<longrightarrow>
      (\<exists>d\<ge>0. computeRMSD qtrfit M t False = Inr (Fin d)))"
proof (intro conjI allI impI)
  fix f'
  assume "MapGeneric (MapRMSDFunctor_call qtrfit) f mps = Inr f'"
  from MapGeneric_call_Inr[OF this]
  show "bestRMSD f' = bestRMSD f \<or> dless (bestRMSD f') (bestRMSD f)" by blast
next
  fix best
  assume "computeRMSD qtrfit M t mn = Inr best"
  then show "best = HUGE_VAL \<or> (\<exists>d\<ge>0. best = Fin d)" by (rule computeRMSD_range)
next
  fix best
  assume "computeRMSD qtrfit M t mn = Inr best"
  then show "is_finite best \<longleftrightarrow>
         (\<exists>mp \<in> set (mapper M t).
            \<exists>d. mapping_rmsd qtrfit (matcher_ref M) t mn mp = Inr (Fin d))"
    by (rule computeRMSD_finite_iff)
next
  assume "bounded_coordinates 480 (matcher_ref M) \<and> bounded_coordinates 480 t \<and>
    mapper M t \<noteq> [] \<and>
    (\<forall>mp \<in> set (mapper M t). in_range (matcher_ref M) t mp \<and> length mp < 2 ^ 32)"
  then show "\<exists>d\<ge>0. computeRMSD qtrfit M t False = Inr (Fin d)"
    using computeRMSD_bounded by blast
qed

text \<open>
  The two bonded atoms and their translated copy: the swap is visited first and the
  identity second, the best RMSD goes from \<^verbatim>\<open>HUGE_VAL\<close> to 1, and the result is
  finite.
\<close>

theorem bestRMSD_monotone_never_negative_witness:
  "MapGeneric (MapRMSDFunctor_call identity_fit) (new_MapRMSDFunctor pair_ref pair_test False)
      [[(0, 1), (1, 0)], [(0, 0), (1, 1)]] =
     Inr (new_MapRMSDFunctor pair_ref pair_test False\<lparr>bestRMSD := Fin 1\<rparr>) \<and>
   dless (Fin 1) (bestRMSD (new_MapRMSDFunctor pair_ref pair_test False)) \<and>
   bounded_coordinates 480 pair_ref \<and> bounded_coordinates 480 pair_test \<and>
   computeRMSD identity_fit (new_Matcher isomorphism_search pair_ref) pair_test False =
     Inr (Fin 1) \<and>
   is_finite (Fin 1) \<and>
   (\<exists>d\<ge>0. computeRMSD identity_fit (new_Matcher isomorphism_search pair_ref) pair_test False =
      Inr (Fin d))"
proof -
  let ?M = "new_Matcher isomorphism_search pair_ref"
  let ?f = "new_MapRMSDFunctor pair_ref pair_test False"
  have m: "mapper ?M pair_test = [[(0, 0), (1, 1)], [(0, 1), (1, 0)]]" "matcher_ref ?M = pair_ref"
    by (simp_all add: new_Matcher_def search_pair)
  have ir: "\<forall>mp \<in> set (mapper ?M pair_test).
      in_range (matcher_ref ?M) pair_test mp \<and> length mp < 2 ^ 32"
    unfolding m
    by (simp add: in_range_def NumAtoms_def pair_ref_def pair_test_def molecule_def)
  have ne: "mapper ?M pair_test \<noteq> []"
    unfolding m by simp
  have b: "bounded_coordinates 480 (matcher_ref ?M)" "bounded_coordinates 480 pair_test"
    unfolding m
    by (simp_all add: bounded_coordinates_def pair_ref_def pair_test_def molecule_def carbon_def)
  have run: "MapGeneric (MapRMSDFunctor_call identity_fit) ?f
      [[(0, 1), (1, 0)], [(0, 0), (1, 1)]] = Inr (?f\<lparr>bestRMSD := Fin 1\<rparr>)"
    by (simp add: call_cases new_MapRMSDFunctor_def HUGE_VAL_def rmsd_pair_id rmsd_pair_swap
        del: One_nat_def)
  have "\<exists>d\<ge>0. computeRMSD identity_fit ?M pair_test False = Inr (Fin d)"
    using bestRMSD_monotone_never_negative [of identity_fit ?f
        "[[(0, 1), (1, 0)], [(0, 0), (1, 1)]]" ?M pair_test False] b ir ne
    by blast
  then show ?thesis
    using run b compute_pair [of identity_fit]
    by (simp add: HUGE_VAL_def is_finite_def m)
qed

end
